theory Spec2Isabelle
  imports Complex_Main "HOL-Library.AList"
begin

section \<open>Python values used by \<open>tweepy/binder.py\<close>\<close>

text \<open>
  Arguments handed to an API method. \<open>PyNone\<close> is Python's \<open>None\<close>; the other
  constructors are the values the binder stringifies with \<open>str\<close>.
\<close>

datatype pyarg = PyNone | PyStr string | PyInt int | PyBool bool

function str_nat :: "nat \<Rightarrow> string" where
  "str_nat n =
     (if n < 10 then [''0123456789'' ! n]
      else str_nat (n div 10) @ [''0123456789'' ! (n mod 10)])"
  by pat_completeness auto
termination
  by (relation "measure id") auto

declare str_nat.simps [simp del]

definition str_int :: "int \<Rightarrow> string" where
  "str_int i = (if i < 0 then CHR ''-'' # str_nat (nat (- i)) else str_nat (nat i))"

fun py_str :: "pyarg \<Rightarrow> string" where
  "py_str PyNone = ''None''"
| "py_str (PyStr s) = s"
| "py_str (PyInt i) = str_int i"
| "py_str (PyBool b) = (if b then ''True'' else ''False'')"

text \<open>
  Results handled by \<open>execute\<close>: an instance of \<open>tweepy.models.Model\<close> with its
  \<open>_api\<close> back-reference (the identity of the owning API object, if attached) and its
  payload, a Python list, or any other object, of which only the truth value and a
  payload are kept.
\<close>

datatype pyval =
    ModelObj "nat option" string
  | PyList "pyval list"
  | Other bool string

fun truthy :: "pyval \<Rightarrow> bool" where
  "truthy (ModelObj a c) = True"
| "truthy (PyList xs) = (xs \<noteq> [])"
| "truthy (Other b c) = b"

record response =
  status_code :: int
  headers :: "(string \<times> string) list"
  text_body :: string

text \<open>
  Exceptions leaving the binder. \<open>TweepError reason response api_code\<close> and
  \<open>RateLimitError reason response\<close> are the classes of \<open>tweepy.error\<close>;
  \<open>ValueError\<close> is raised by \<open>int\<close>, \<open>float\<close> and \<open>time.sleep\<close>,
  \<open>OverflowError\<close> and \<open>OSError\<close> by \<open>time.sleep\<close>, and
  \<open>UnboundLocalError\<close> by reading \<open>resp\<close> when the loop body never ran.
\<close>

datatype error =
    TweepError string "response option" "int option"
  | RateLimitError string response
  | ValueError
  | OverflowError
  | OSError
  | UnboundLocalError

text \<open>
  A number of seconds as \<open>time.sleep\<close> receives it: an integer or a finite float
  (\<open>Num\<close>), or one of the floats \<open>inf\<close>, \<open>-inf\<close> and \<open>nan\<close>.
\<close>

datatype pynum = Num rat | PosInf | NegInf | NaN

section \<open>\<open>APIMethod.build_parameters\<close>\<close>

type_synonym params = "(string \<times> string) list"

text \<open>
  \<open>session.params\<close> is a dict: an association list in insertion order, where assigning
  an existing key keeps its position (\<open>AList.update\<close>).

  The first loop, over \<open>enumerate(args)\<close>: \<open>idx\<close> is the index of the head of the
  remaining arguments.
\<close>

fun positional :: "string list \<Rightarrow> nat \<Rightarrow> pyarg list \<Rightarrow> params \<Rightarrow> error + params" where
  "positional allowed idx [] p = Inr p"
| "positional allowed idx (arg # args) p =
     (if arg = PyNone then positional allowed (Suc idx) args p
      else if idx < length allowed
        then positional allowed (Suc idx) args (AList.update (allowed ! idx) (py_str arg) p)
        else Inl (TweepError ''Too many parameters supplied!'' None None))"

text \<open>The second loop, over \<open>kwargs.items()\<close>.\<close>

fun keyword :: "(string \<times> pyarg) list \<Rightarrow> params \<Rightarrow> error + params" where
  "keyword [] p = Inr p"
| "keyword ((k, arg) # kwargs) p =
     (if arg = PyNone then keyword kwargs p
      else if k \<in> fst ` set p
        then Inl (TweepError (''Multiple values for parameter '' @ k @ '' supplied!'') None None)
        else keyword kwargs (AList.update k (py_str arg) p))"

definition build_parameters ::
  "string list \<Rightarrow> pyarg list \<Rightarrow> (string \<times> pyarg) list \<Rightarrow> error + params" where
  "build_parameters allowed args kwargs =
     (case positional allowed 0 args [] of
        Inl e \<Rightarrow> Inl e
      | Inr p \<Rightarrow> keyword kwargs p)"

section \<open>The API object and the method object\<close>

text \<open>
  The fields of the shared \<open>API\<close> object that the binder reads or writes.
  \<open>api_id\<close> stands for the identity of the object (what a \<open>_api\<close> back-reference
  points to); \<open>auth\<close> is \<open>None\<close> when no authentication handler is configured and
  otherwise holds what \<open>apply_auth()\<close> returns; \<open>cache\<close> tells whether a cache
  object is configured; \<open>retry_errors\<close> is empty when the attribute is \<open>None\<close> or an
  empty collection (both are falsy).
\<close>

record api =
  api_id :: nat
  auth :: "string option"
  cache :: bool
  api_root :: string
  upload_root :: string
  host :: string
  upload_host :: string
  retry_count :: int
  retry_delay :: pynum
  retry_errors :: "int list"
  timeout :: rat
  proxy :: "(string \<times> string) list"
  wait_on_rate_limit :: bool
  wait_on_rate_limit_notify :: bool
  cached_result :: bool
  last_response :: "response option"

text \<open>
  The \<open>APIMethod\<close> instance (\<open>self\<close>). \<open>params\<close> is \<open>self.session.params\<close>;
  \<open>m_api_root\<close> and \<open>m_host\<close> are \<open>self.api_root\<close> and \<open>self.host\<close>;
  \<open>remaining_calls\<close> and \<open>reset_time\<close> are \<open>self._remaining_calls\<close> and
  \<open>self._reset_time\<close>.
\<close>

record api_method =
  api :: api
  path :: string
  payload_type :: "string option"
  payload_list :: bool
  allowed_param :: "string list"
  require_auth :: bool
  upload_api :: bool
  json_payload :: "string option"
  req_headers :: "(string \<times> string) list"
  params :: params
  m_api_root :: string
  m_host :: string
  remaining_calls :: "int option"
  reset_time :: "int option"

text \<open>\<open>APIMethod.__init__\<close>, with the popped keyword arguments as explicit arguments.\<close>

definition init ::
  "api \<Rightarrow> string \<Rightarrow> string option \<Rightarrow> bool \<Rightarrow> string list \<Rightarrow> bool \<Rightarrow> bool \<Rightarrow>
   string option \<Rightarrow> (string \<times> string) list \<Rightarrow> pyarg list \<Rightarrow> (string \<times> pyarg) list \<Rightarrow>
   error + api_method" where
  "init a pth ptype plist allowed req_auth upload json hdrs args kwargs =
     (if req_auth \<and> auth a = None then Inl (TweepError ''Authentication required!'' None None)
      else case build_parameters allowed args kwargs of
        Inl e \<Rightarrow> Inl e
      | Inr p \<Rightarrow> Inr \<lparr>api = a, path = pth, payload_type = ptype, payload_list = plist,
                      allowed_param = allowed, require_auth = req_auth, upload_api = upload,
                      json_payload = json, req_headers = hdrs, params = p,
                      m_api_root = (if upload then upload_root a else api_root a),
                      m_host = (if upload then upload_host a else host a),
                      remaining_calls = None, reset_time = None\<rparr>)"

section \<open>The world outside the binder\<close>

text \<open>
  What \<open>execute\<close> does to its collaborators, in order. \<open>Request verb url data auth\<close>
  is one call of \<open>session.request\<close>; \<open>TimeRead\<close> one call of \<open>time.time()\<close>;
  \<open>Sleep d\<close> one call of \<open>time.sleep(d)\<close> that returns; \<open>ApplyAuth\<close> one call of
  \<open>auth.apply_auth()\<close>; \<open>CacheGet\<close> and \<open>CacheStore\<close> the calls of the cache;
  \<open>LogWarning\<close> the rate-limit notice.
\<close>

datatype event =
    CacheGet string
  | CacheStore string pyval
  | TimeRead
  | LogWarning string
  | Sleep pynum
  | ApplyAuth
  | Request string string "string option" "string option"

fun is_request :: "event \<Rightarrow> bool" where
  "is_request (Request v u d a) = True"
| "is_request e = False"

fun is_time_read :: "event \<Rightarrow> bool" where
  "is_time_read TimeRead = True"
| "is_time_read e = False"

definition count_sends :: "event list \<Rightarrow> nat" where
  "count_sends tr = length (filter is_request tr)"

definition count_reads :: "event list \<Rightarrow> nat" where
  "count_reads tr = length (filter is_time_read tr)"

text \<open>
  How the collaborators answer. \<open>responses n\<close> is the outcome of the \<open>n\<close>-th call of
  \<open>session.request\<close> (counted from 0): \<open>Inl msg\<close> an exception whose text is
  \<open>msg\<close>, \<open>Inr r\<close> a response. \<open>clock n\<close> is \<open>int(time.time())\<close> at the
  \<open>n\<close>-th reading. \<open>cache_get\<close> is \<open>api.cache.get\<close> (\<open>None\<close> for Python's
  \<open>None\<close>). \<open>parse\<close> and \<open>parse_error\<close> are the parser's methods
  (\<open>parse_error\<close> gives \<open>None\<close> when it raises). \<open>is_rate_limit_error_message\<close>
  is the predicate imported from \<open>tweepy.error\<close>. \<open>py_int\<close> and \<open>py_float\<close>
  are the builtins \<open>int\<close> and \<open>float\<close> on strings, \<open>None\<close> when they raise
  \<open>ValueError\<close>. \<open>time_sleep d\<close> is what \<open>time.sleep(d)\<close> does: \<open>None\<close> when it
  sleeps and returns, \<open>Some err\<close> when it raises \<open>err\<close> instead (\<open>ValueError\<close> for a
  negative delay or \<open>nan\<close>, \<open>OverflowError\<close> or \<open>OSError\<close> for a delay beyond what
  the platform can wait for, about \<open>9.2e9\<close> seconds).
\<close>

record env =
  responses :: "nat \<Rightarrow> string + response"
  clock :: "nat \<Rightarrow> int"
  cache_get :: "string \<Rightarrow> pyval option"
  parse :: "api_method \<Rightarrow> string \<Rightarrow> bool \<Rightarrow> error + pyval"
  parse_error :: "string \<Rightarrow> (string \<times> int option) option"
  is_rate_limit_error_message :: "string \<Rightarrow> bool"
  py_int :: "string \<Rightarrow> int option"
  py_float :: "string \<Rightarrow> pynum option"
  time_sleep :: "pynum \<Rightarrow> error option"

subsection \<open>\<open>urllib.parse.urlencode\<close> on a dict of strings\<close>

definition always_safe :: "char \<Rightarrow> bool" where
  "always_safe c \<longleftrightarrow>
     c \<in> set ''ABCDEFGHIJKLMNOPQRSTUVWXYZabcdefghijklmnopqrstuvwxyz0123456789_.-~''"

definition percent :: "char \<Rightarrow> string" where
  "percent c =
     [CHR ''%'', ''0123456789ABCDEF'' ! (of_char c div 16),
      ''0123456789ABCDEF'' ! (of_char c mod 16)]"

definition quote_plus :: "string \<Rightarrow> string" where
  "quote_plus s =
     concat (map (\<lambda>c. if always_safe c then [c]
                       else if c = CHR '' '' then ''+'' else percent c) s)"

fun join :: "string \<Rightarrow> string list \<Rightarrow> string" where
  "join sep [] = []"
| "join sep [x] = x"
| "join sep (x # y # ys) = x @ sep @ join sep (y # ys)"

definition urlencode :: "params \<Rightarrow> string" where
  "urlencode p = join ''&'' (map (\<lambda>(k, v). quote_plus k @ ''='' @ quote_plus v) p)"

section \<open>\<open>APIMethod.execute\<close>\<close>

text \<open>
  The mutable state of one run of the retry loop: the method object (with the API object
  inside), the calls made so far, and the local variables \<open>retries_performed\<close> and
  \<open>resp\<close> (\<open>None\<close> while unbound).
\<close>

record loop_state =
  self :: api_method
  trace :: "event list"
  retries_performed :: int
  resp :: "response option"

definition emit :: "event \<Rightarrow> loop_state \<Rightarrow> loop_state" where
  "emit e s = s\<lparr>trace := trace s @ [e]\<rparr>"

text \<open>How one run of the loop body ends: by an exception, by \<open>break\<close>, or back at the
  loop head (\<open>continue\<close> or the end of the body).\<close>

datatype flow = Raise error | Break | Continue

text \<open>
  Lines 103--111: the rate-limit gate. The first component is the exception raised by
  \<open>time.sleep\<close>, if any.
\<close>

definition rate_limit_gate :: "env \<Rightarrow> loop_state \<Rightarrow> error option \<times> loop_state" where
  "rate_limit_gate e s =
     (case (reset_time (self s), remaining_calls (self s)) of
        (Some rt, Some rc) \<Rightarrow>
          if wait_on_rate_limit (api (self s)) \<and> rc < 1 then
            (let sleep_time = rt - clock e (count_reads (trace s));
                 s1 = emit TimeRead s
             in if sleep_time > 0 then
                  (let s2 = (if wait_on_rate_limit_notify (api (self s))
                             then emit (LogWarning (''Rate limit reached. Sleeping for: ''
                                                    @ str_int sleep_time)) s1
                             else s1)
                   in case time_sleep e (Num (of_int (sleep_time + 1))) of
                        Some err \<Rightarrow> (Some err, s2)
                      | None \<Rightarrow> (None, emit (Sleep (Num (of_int (sleep_time + 1)))) s2))
                else (None, s1))
          else (None, s)
      | _ \<Rightarrow> (None, s))"

text \<open>Lines 113--116: authentication.\<close>

definition apply_auth :: "loop_state \<Rightarrow> loop_state" where
  "apply_auth s = (case auth (api (self s)) of None \<Rightarrow> s | Some c \<Rightarrow> emit ApplyAuth s)"

text \<open>Lines 134--142: the rate-limit bookkeeping from the response headers. Header
  names are looked up in lower case, as \<open>requests\<close> does regardless of case.\<close>

definition update_remaining :: "env \<Rightarrow> response \<Rightarrow> api_method \<Rightarrow> error + api_method" where
  "update_remaining e r m =
     (case map_of (headers r) ''x-rate-limit-remaining'' of
        Some v \<Rightarrow>
          (case py_int e v of
             None \<Rightarrow> Inl ValueError
           | Some n \<Rightarrow> Inr (m\<lparr>remaining_calls := Some n\<rparr>))
      | None \<Rightarrow>
          (case remaining_calls m of
             Some c \<Rightarrow> Inr (m\<lparr>remaining_calls := Some (c - 1)\<rparr>)
           | None \<Rightarrow> Inr m))"

definition update_reset :: "env \<Rightarrow> response \<Rightarrow> api_method \<Rightarrow> error + api_method" where
  "update_reset e r m =
     (case map_of (headers r) ''x-rate-limit-reset'' of
        Some v \<Rightarrow>
          (case py_int e v of
             None \<Rightarrow> Inl ValueError
           | Some n \<Rightarrow> Inr (m\<lparr>reset_time := Some n\<rparr>))
      | None \<Rightarrow> Inr m)"

text \<open>Lines 155--157: the sleep before the next attempt.\<close>

definition sleep_and_retry :: "env \<Rightarrow> pynum \<Rightarrow> loop_state \<Rightarrow> flow \<times> loop_state" where
  "sleep_and_retry e d s =
     (case time_sleep e d of
        Some err \<Rightarrow> (Raise err, s)
      | None \<Rightarrow> (Continue, (emit (Sleep d) s)\<lparr>retries_performed := retries_performed s + 1\<rparr>))"

text \<open>Lines 144--157.\<close>

definition decide :: "env \<Rightarrow> response \<Rightarrow> loop_state \<Rightarrow> flow \<times> loop_state" where
  "decide e r s =
     (if status_code r \<in> {420, 429} \<and> wait_on_rate_limit (api (self s)) then
        (if remaining_calls (self s) = Some 0 then (Continue, s)
         else case map_of (headers r) ''retry-after'' of
           Some v \<Rightarrow>
             (case py_float e v of
                None \<Rightarrow> (Raise ValueError, s)
              | Some d \<Rightarrow> sleep_and_retry e d s)
         | None \<Rightarrow> sleep_and_retry e (retry_delay (api (self s))) s)
      else if retry_errors (api (self s)) \<noteq> []
              \<and> status_code r \<notin> set (retry_errors (api (self s))) then (Break, s)
      else sleep_and_retry e (retry_delay (api (self s))) s)"

text \<open>Lines 131--157: what happens to a received response.\<close>

definition classify :: "env \<Rightarrow> response \<Rightarrow> loop_state \<Rightarrow> flow \<times> loop_state" where
  "classify e r s =
     (if 200 \<le> status_code r \<and> status_code r < 300 then (Break, s)
      else case update_remaining e r (self s) of
        Inl err \<Rightarrow> (Raise err, s)
      | Inr m1 \<Rightarrow>
          (case update_reset e r m1 of
             Inl err \<Rightarrow> (Raise err, s\<lparr>self := m1\<rparr>)
           | Inr m2 \<Rightarrow> decide e r (s\<lparr>self := m2\<rparr>)))"

text \<open>Lines 103--157: the loop body.\<close>

definition iteration ::
  "env \<Rightarrow> string \<Rightarrow> string \<Rightarrow> string option \<Rightarrow> loop_state \<Rightarrow> flow \<times> loop_state" where
  "iteration e verb full_url post_data s =
     (case rate_limit_gate e s of
        (Some err, s1) \<Rightarrow> (Raise err, s1)
      | (None, s1) \<Rightarrow>
          (let s2 = apply_auth s1;
               s3 = emit (Request verb full_url post_data (auth (api (self s2)))) s2
           in case responses e (count_sends (trace s2)) of
                Inl msg \<Rightarrow> (Raise (TweepError (''Failed to send request: '' @ msg) None None), s3)
              | Inr r \<Rightarrow> classify e r (s3\<lparr>resp := Some r\<rparr>)))"

text \<open>
  Auxiliary notions for the statements below: the calls to the cache; a stretch of
  calls with neither a request nor a cache call; and a response whose rate-limit
  headers, where present, are accepted by \<open>int\<close>.
\<close>

fun is_cache_event :: "event \<Rightarrow> bool" where
  "is_cache_event (CacheGet k) = True"
| "is_cache_event (CacheStore k v) = True"
| "is_cache_event e = False"

definition quiet :: "event list \<Rightarrow> bool" where
  "quiet ext \<longleftrightarrow> list_all (\<lambda>x. \<not> is_request x \<and> \<not> is_cache_event x) ext"

definition headers_parse :: "env \<Rightarrow> response \<Rightarrow> bool" where
  "headers_parse e r \<longleftrightarrow>
     (case map_of (headers r) ''x-rate-limit-remaining'' of
        None \<Rightarrow> True | Some v \<Rightarrow> py_int e v \<noteq> None) \<and>
     (case map_of (headers r) ''x-rate-limit-reset'' of
        None \<Rightarrow> True | Some v \<Rightarrow> py_int e v \<noteq> None)"

text \<open>
  Lines 101--157: the \<open>while\<close> loop. It need not end, so it runs on fuel: \<open>None\<close>
  means the fuel ran out before the loop was left. Otherwise the result is the exception
  that left the loop, if any, and the state.
\<close>

fun request_loop ::
  "env \<Rightarrow> string \<Rightarrow> string \<Rightarrow> string option \<Rightarrow> nat \<Rightarrow> loop_state \<Rightarrow>
   (error option \<times> loop_state) option" where
  "request_loop e verb full_url post_data fuel s =
     (if retries_performed s < retry_count (api (self s)) + 1 then
        (case fuel of
           0 \<Rightarrow> None
         | Suc n \<Rightarrow>
             (case iteration e verb full_url post_data s of
                (Raise err, s') \<Rightarrow> Some (Some err, s')
              | (Break, s') \<Rightarrow> Some (None, s')
              | (Continue, s') \<Rightarrow> request_loop e verb full_url post_data n s'))
      else Some (None, s))"

declare request_loop.simps [simp del]

text \<open>Lines 88--95: restoring the API reference of a cached result.\<close>

fun set_api :: "nat \<Rightarrow> pyval \<Rightarrow> pyval" where
  "set_api a (ModelObj old c) = ModelObj (Some a) c"
| "set_api a v = v"

fun restore_api :: "nat \<Rightarrow> pyval \<Rightarrow> pyval" where
  "restore_api a (PyList xs) = PyList (map (set_api a) xs)"
| "restore_api a v = set_api a v"

text \<open>Lines 162--166: the error message and the API error code.\<close>

definition error_message :: "env \<Rightarrow> response \<Rightarrow> string \<times> int option" where
  "error_message e r =
     (case parse_error e (text_body r) of
        Some (msg, code) \<Rightarrow> (msg, code)
      | None \<Rightarrow> (''Twitter error response: status code = '' @ str_int (status_code r), None))"

text \<open>Lines 168--171: the exception raised for an error response.\<close>

definition api_error :: "env \<Rightarrow> response \<Rightarrow> error" where
  "api_error e r =
     (case error_message e r of
        (msg, code) \<Rightarrow>
          if is_rate_limit_error_message e msg then RateLimitError msg r
          else TweepError msg (Some r) code)"

text \<open>The cache key \<open>f'{url}?{urlencode(self.session.params)}'\<close>.\<close>

definition cache_key :: "string \<Rightarrow> params \<Rightarrow> string" where
  "cache_key url p = url @ ''?'' @ urlencode p"

text \<open>Lines 159--182: after the loop.\<close>

definition finish ::
  "env \<Rightarrow> string \<Rightarrow> string \<Rightarrow> bool \<Rightarrow> bool \<Rightarrow> loop_state \<Rightarrow>
   (error + pyval) \<times> api_method \<times> event list" where
  "finish e url verb return_cursors use_cache s =
     (case resp s of
        None \<Rightarrow> (Inl UnboundLocalError, self s, trace s)
      | Some r \<Rightarrow>
          (let m = (self s)\<lparr>api := (api (self s))\<lparr>last_response := Some r\<rparr>\<rparr> in
           if status_code r \<noteq> 0 \<and> \<not> (200 \<le> status_code r \<and> status_code r < 300) then
             (Inl (api_error e r), m, trace s)
           else
             (case parse e m (text_body r)
                     (return_cursors \<or> ''cursor'' \<in> fst ` set (params m)
                                      \<or> ''next'' \<in> fst ` set (params m)) of
                Inl err \<Rightarrow> (Inl err, m, trace s)
              | Inr result \<Rightarrow>
                  if use_cache \<and> cache (api m) \<and> verb = ''GET'' \<and> truthy result
                  then (Inr result, m, trace s @ [CacheStore (cache_key url (params m)) result])
                  else (Inr result, m, trace s))))"

text \<open>The state in which the loop is entered (line 101).\<close>

definition loop_start :: "api_method \<Rightarrow> event list \<Rightarrow> loop_state" where
  "loop_start m tr = \<lparr>self = m, trace = tr, retries_performed = 0, resp = None\<rparr>"

text \<open>Lines 99--182: the loop and what follows it.\<close>

definition request_and_finish ::
  "env \<Rightarrow> nat \<Rightarrow> api_method \<Rightarrow> event list \<Rightarrow> string \<Rightarrow> string \<Rightarrow> string option \<Rightarrow> bool \<Rightarrow> bool \<Rightarrow>
   ((error + pyval) \<times> api_method \<times> event list) option" where
  "request_and_finish e fuel m tr url verb post_data return_cursors use_cache =
     (case request_loop e verb (''https://'' @ m_host m @ url) post_data fuel (loop_start m tr) of
        None \<Rightarrow> None
      | Some (Some err, s) \<Rightarrow> Some (Inl err, self s, trace s)
      | Some (None, s) \<Rightarrow> Some (finish e url verb return_cursors use_cache s))"

text \<open>Line 76.\<close>

definition entry :: "api_method \<Rightarrow> api_method" where
  "entry m = m\<lparr>api := (api m)\<lparr>cached_result := False\<rparr>\<rparr>"

text \<open>
  Lines 84--87: the cache lookup. The first component is the cached result when the
  lookup is made and gives a truthy object, the second the calls made.
\<close>

definition cache_phase ::
  "env \<Rightarrow> api_method \<Rightarrow> string \<Rightarrow> string \<Rightarrow> bool \<Rightarrow> pyval option \<times> event list" where
  "cache_phase e m url verb use_cache =
     (if use_cache \<and> cache (api m) \<and> verb = ''GET'' then
        (case cache_get e (cache_key url (params m)) of
           None \<Rightarrow> (None, [CacheGet (cache_key url (params m))])
         | Some cache_result \<Rightarrow>
             if truthy cache_result
             then (Some cache_result, [CacheGet (cache_key url (params m))])
             else (None, [CacheGet (cache_key url (params m))]))
      else (None, []))"

text \<open>
  \<open>execute(method, post_data, return_cursors, use_cache)\<close>: the result or the
  exception, the method object afterwards, and the calls made, in order; \<open>None\<close> when
  the fuel does not suffice for the loop.
\<close>

definition execute ::
  "env \<Rightarrow> nat \<Rightarrow> api_method \<Rightarrow> string \<Rightarrow> string option \<Rightarrow> bool \<Rightarrow> bool \<Rightarrow>
   ((error + pyval) \<times> api_method \<times> event list) option" where
  "execute e fuel m0 verb post_data return_cursors use_cache =
     (let m = entry m0;
          url = m_api_root m @ path m
      in case cache_phase e m url verb use_cache of
           (Some cache_result, tr) \<Rightarrow>
             Some (Inr (restore_api (api_id (api m)) cache_result),
                   m\<lparr>api := (api m)\<lparr>cached_result := True\<rparr>\<rparr>, tr)
         | (None, tr) \<Rightarrow>
             request_and_finish e fuel m tr url verb post_data return_cursors use_cache)"

text \<open>
  A result whose \<open>Model\<close> objects (the result itself, or the elements of a list) all
  refer to the API object \<open>a\<close>.
\<close>

fun owned_by :: "nat \<Rightarrow> pyval \<Rightarrow> bool" where
  "owned_by a (ModelObj ref c) = (ref = Some a)"
| "owned_by a v = True"

fun attached :: "nat \<Rightarrow> pyval \<Rightarrow> bool" where
  "attached a (PyList xs) = list_all (owned_by a) xs"
| "attached a v = owned_by a v"

text \<open>
  A 420 or 429 response whose remaining-calls header reads 0 (and whose reset header,
  if present, is accepted by \<open>int\<close>).
\<close>

definition rate_limited_out :: "env \<Rightarrow> response \<Rightarrow> bool" where
  "rate_limited_out e r \<longleftrightarrow>
     (status_code r = 420 \<or> status_code r = 429) \<and>
     (case map_of (headers r) ''x-rate-limit-remaining'' of
        None \<Rightarrow> False | Some v \<Rightarrow> py_int e v = Some 0) \<and>
     (case map_of (headers r) ''x-rate-limit-reset'' of
        None \<Rightarrow> True | Some v \<Rightarrow> py_int e v \<noteq> None)"

text \<open>
  Every sleep the rate-limit gate can ask for is one \<open>time.sleep\<close> accepts: with
  waiting enabled, for every reset time the method object holds or a response supplies
  in its header and every clock reading before it, the delay up to the reset plus one
  second is accepted.
\<close>

definition gate_sleeps_accepted :: "env \<Rightarrow> api_method \<Rightarrow> bool" where
  "gate_sleeps_accepted e m \<longleftrightarrow>
     (wait_on_rate_limit (api m) \<longrightarrow>
      (\<forall>rt n.
         (reset_time m = Some rt \<or>
          (\<exists>i r v. responses e i = Inr r \<and>
                   map_of (headers r) ''x-rate-limit-reset'' = Some v \<and>
                   py_int e v = Some rt)) \<longrightarrow>
         0 < rt - clock e n \<longrightarrow>
         time_sleep e (Num (of_int (rt - clock e n + 1))) = None))"

text \<open>
  The keyword arguments that collide with a set of names already bound: those whose
  value is not \<open>None\<close> and whose name is in the set.
\<close>

definition collides :: "string set \<Rightarrow> string \<times> pyarg \<Rightarrow> bool" where
  "collides P kv \<longleftrightarrow> snd kv \<noteq> PyNone \<and> fst kv \<in> P"

section \<open>Sample objects\<close>

text \<open>An API object, a method object for \<open>GET /1.1/statuses/show.json?id=7\<close>, some
  responses and a world in which every request is answered by a 500.\<close>

definition sample_api :: api where
  "sample_api =
     \<lparr>api_id = 1, auth = Some ''token'', cache = True, api_root = ''/1.1'',
      upload_root = ''/1.1'', host = ''api.twitter.com'', upload_host = ''upload.twitter.com'',
      retry_count = 2, retry_delay = Num 1, retry_errors = [500], timeout = 60, proxy = [],
      wait_on_rate_limit = True, wait_on_rate_limit_notify = False, cached_result = False,
      last_response = None\<rparr>"

definition sample_method :: api_method where
  "sample_method =
     \<lparr>api = sample_api, path = ''/statuses/show.json'', payload_type = Some ''status'',
      payload_list = False, allowed_param = [''id''], require_auth = True, upload_api = False,
      json_payload = None, req_headers = [], params = [(''id'', ''7'')],
      m_api_root = ''/1.1'', m_host = ''api.twitter.com'',
      remaining_calls = None, reset_time = None\<rparr>"

definition server_error :: response where
  "server_error = \<lparr>status_code = 500, headers = [], text_body = ''oops''\<rparr>"

definition too_many_requests :: response where
  "too_many_requests =
     \<lparr>status_code = 429,
      headers = [(''x-rate-limit-remaining'', ''0''), (''x-rate-limit-reset'', ''1000'')],
      text_body = ''limit''\<rparr>"

definition slow_down :: response where
  "slow_down =
     \<lparr>status_code = 429,
      headers = [(''x-rate-limit-remaining'', ''3''), (''retry-after'', ''5'')],
      text_body = ''limit''\<rparr>"

definition ok_response :: response where
  "ok_response = \<lparr>status_code = 200, headers = [], text_body = ''{}''\<rparr>"

text \<open>
  \<open>time.sleep\<close> as in CPython 3.11 on Linux: a delay of more than \<open>2^63 - 1\<close>
  nanoseconds in either direction and the infinities give \<open>OverflowError\<close>, other
  negative delays and \<open>nan\<close> give \<open>ValueError\<close>, delays from 0 to \<open>9e9\<close>
  seconds are slept, and the delays in between give \<open>OSError\<close> (where exactly the
  system call starts to refuse depends on the machine; the sample is used only well away
  from there).
\<close>

fun sample_sleep :: "pynum \<Rightarrow> error option" where
  "sample_sleep (Num d) =
     (if 9223372036854775807 < \<bar>d\<bar> * 1000000000 then Some OverflowError
      else if d < 0 then Some ValueError
      else if 9000000000 < d then Some OSError
      else None)"
| "sample_sleep PosInf = Some OverflowError"
| "sample_sleep NegInf = Some OverflowError"
| "sample_sleep NaN = Some ValueError"

definition sample_env :: env where
  "sample_env =
     \<lparr>responses = (\<lambda>n. Inr server_error), clock = (\<lambda>n. 900), cache_get = (\<lambda>k. None),
      parse = (\<lambda>m t rc. Inr (Other True t)), parse_error = (\<lambda>t. Some (t, None)),
      is_rate_limit_error_message = (\<lambda>msg. False),
      py_int = (\<lambda>s. if s = ''0'' then Some 0 else if s = ''3'' then Some 3
                     else if s = ''1000'' then Some 1000 else None),
      py_float = (\<lambda>s. if s = ''5'' then Some (Num 5) else None),
      time_sleep = sample_sleep\<rparr>"

section \<open>Properties of \<open>build_parameters\<close>\<close>

lemma positional_too_many:
  "i < length args \<Longrightarrow> args ! i \<noteq> PyNone \<Longrightarrow> length allowed \<le> idx + i \<Longrightarrow>
   positional allowed idx args p = Inl (TweepError ''Too many parameters supplied!'' None None)"
proof (induction args arbitrary: idx i p)
  case Nil
  then show ?case by simp
next
  case (Cons a args)
  show ?case
  proof (cases i)
    case 0
    with Cons.prems show ?thesis by simp
  next
    case (Suc j)
    with Cons.prems have "positional allowed (Suc idx) args q =
        Inl (TweepError ''Too many parameters supplied!'' None None)" for q
      by (intro Cons.IH [of j]) simp_all
    then show ?thesis by simp
  qed
qed

lemma positional_fits:
  "\<forall>i<length args. args ! i \<noteq> PyNone \<longrightarrow> idx + i < length allowed \<Longrightarrow>
   \<exists>p'. positional allowed idx args p = Inr p'"
proof (induction args arbitrary: idx p)
  case Nil
  then show ?case by simp
next
  case (Cons a args)
  have tl: "\<forall>i<length args. args ! i \<noteq> PyNone \<longrightarrow> Suc idx + i < length allowed"
    using Cons.prems by fastforce
  have hd: "a \<noteq> PyNone \<Longrightarrow> idx < length allowed"
    using Cons.prems by fastforce
  show ?case
    using Cons.IH [OF tl] hd by simp
qed

lemma positional_keys:
  "positional allowed idx args p = Inr p' \<Longrightarrow>
   fst ` set p' = fst ` set p \<union> {allowed ! (idx + i) | i. i < length args \<and> args ! i \<noteq> PyNone}"
proof (induction args arbitrary: idx p)
  case Nil
  then show ?case by simp
next
  case (Cons a args)
  let ?K = "\<lambda>idx args. {allowed ! (idx + i) | i. i < length args \<and> args ! i \<noteq> PyNone}"
  have split: "?K idx (a # args) = (if a = PyNone then {} else {allowed ! idx}) \<union> ?K (Suc idx) args"
  proof (rule set_eqI)
    fix x
    show "x \<in> ?K idx (a # args) \<longleftrightarrow> x \<in> (if a = PyNone then {} else {allowed ! idx}) \<union> ?K (Suc idx) args"
    proof
      assume "x \<in> ?K idx (a # args)"
      then obtain i where i: "x = allowed ! (idx + i)" "i < length (a # args)" "(a # args) ! i \<noteq> PyNone"
        by blast
      show "x \<in> (if a = PyNone then {} else {allowed ! idx}) \<union> ?K (Suc idx) args"
      proof (cases i)
        case 0
        with i show ?thesis by simp
      next
        case (Suc j)
        with i have "x = allowed ! (Suc idx + j)" "j < length args" "args ! j \<noteq> PyNone" by simp_all
        then show ?thesis by blast
      qed
    next
      assume "x \<in> (if a = PyNone then {} else {allowed ! idx}) \<union> ?K (Suc idx) args"
      then consider "a \<noteq> PyNone" "x = allowed ! idx" | "x \<in> ?K (Suc idx) args"
        by (auto split: if_splits)
      then show "x \<in> ?K idx (a # args)"
      proof cases
        case 1
        then have "x = allowed ! (idx + 0)" "0 < length (a # args)" "(a # args) ! 0 \<noteq> PyNone" by simp_all
        then show ?thesis by blast
      next
        case 2
        then obtain j where "x = allowed ! (Suc idx + j)" "j < length args" "args ! j \<noteq> PyNone" by blast
        then have "x = allowed ! (idx + Suc j)" "Suc j < length (a # args)" "(a # args) ! Suc j \<noteq> PyNone"
          by simp_all
        then show ?thesis by blast
      qed
    qed
  qed
  show ?case
  proof (cases "a = PyNone")
    case True
    with Cons.prems have "positional allowed (Suc idx) args p = Inr p'" by simp
    from Cons.IH [OF this] show ?thesis unfolding split using True by simp
  next
    case False
    with Cons.prems have r: "positional allowed (Suc idx) args (AList.update (allowed ! idx) (py_str a) p) = Inr p'"
      by (simp split: if_splits)
    from Cons.IH [OF r] show ?thesis unfolding split using False by (simp add: dom_update)
  qed
qed

lemma keyword_first_collision:
  "\<forall>kv\<in>set pre. \<not> collides (fst ` set p) kv \<Longrightarrow>
   distinct (map fst (pre @ (k, v) # post)) \<Longrightarrow> v \<noteq> PyNone \<Longrightarrow> k \<in> fst ` set p \<Longrightarrow>
   keyword (pre @ (k, v) # post) p =
     Inl (TweepError (''Multiple values for parameter '' @ k @ '' supplied!'') None None)"
proof (induction pre arbitrary: p)
  case Nil
  then show ?case by simp
next
  case (Cons kv pre)
  obtain k0 a0 where kv: "kv = (k0, a0)" by (cases kv)
  have dist: "distinct (map fst (pre @ (k, v) # post))"
    and fresh: "k0 \<notin> fst ` set pre" "k0 \<noteq> k"
    using Cons.prems(2) kv by auto
  have quiet0: "a0 = PyNone \<or> k0 \<notin> fst ` set p"
    using Cons.prems(1) kv by (simp add: collides_def)
  have rest: "\<forall>x\<in>set pre. \<not> collides (fst ` set p) x"
    using Cons.prems(1) by simp
  show ?case
  proof (cases "a0 = PyNone")
    case True
    from Cons.IH [OF rest dist Cons.prems(3,4)] show ?thesis
      using True kv by simp
  next
    case False
    with quiet0 have nin: "k0 \<notin> fst ` set p" by simp
    have rest': "\<forall>x\<in>set pre. \<not> collides (fst ` set (AList.update k0 (py_str a0) p)) x"
    proof
      fix x assume x: "x \<in> set pre"
      with rest have "\<not> collides (fst ` set p) x" by blast
      moreover from x fresh(1) have "fst x \<noteq> k0" by force
      ultimately show "\<not> collides (fst ` set (AList.update k0 (py_str a0) p)) x"
        by (simp add: collides_def dom_update)
    qed
    have k: "k \<in> fst ` set (AList.update k0 (py_str a0) p)"
      using Cons.prems(4) by (simp add: dom_update)
    from Cons.IH [OF rest' dist Cons.prems(3) k] show ?thesis
      using False nin kv by simp
  qed
qed

text \<open>
  Claim C2, as the code has it. With one positional argument more than the schema has
  names, \<open>build_parameters\<close> raises \<open>TweepError('Too many parameters supplied!')\<close>,
  whatever the keyword arguments are, provided the extra argument (the one at index
  \<open>length allowed\<close>) is not \<open>None\<close>. The function reads and writes nothing but the
  parameter dict, so the failure precedes any network activity.
\<close>

theorem too_many_parameters:
  assumes "length args = length allowed + 1" and "args ! length allowed \<noteq> PyNone"
  shows "build_parameters allowed args kwargs =
     Inl (TweepError ''Too many parameters supplied!'' None None)"
proof -
  have "length allowed < length args" using assms(1) by arith
  from positional_too_many [OF this assms(2), of allowed 0 "[]"]
  have "positional allowed 0 args [] =
      Inl (TweepError ''Too many parameters supplied!'' None None)" by simp
  then show ?thesis by (simp add: build_parameters_def)
qed

text \<open>The theorem of claim C2 at the schema \<open>['id']\<close> and the arguments \<open>(1, 'x')\<close>.\<close>

theorem too_many_parameters_witness:
  "build_parameters [''id''] [PyInt 1, PyStr ''x''] [(''id'', PyInt 2)] =
     Inl (TweepError ''Too many parameters supplied!'' None None)"
proof -
  have a: "length [PyInt 1, PyStr ''x''] = length [''id''] + 1" by simp
  have b: "[PyInt 1, PyStr ''x''] ! length [''id''] \<noteq> PyNone" by simp
  show ?thesis by (rule too_many_parameters [OF a b])
qed

text \<open>
  Claim C2 as stated fails: \<open>None\<close> arguments are skipped before the schema is
  indexed (line 58), so a trailing \<open>None\<close> beyond the schema raises nothing.
\<close>

theorem too_many_parameters_counterexample:
  "length [PyStr ''7'', PyNone] = length [''id''] + 1 \<and>
   build_parameters [''id''] [PyStr ''7'', PyNone] [] = Inr [(''id'', ''7'')]"
  by (simp add: build_parameters_def)

text \<open>
  Claim C3, as the code has it. When the positional arguments fit the schema, and some
  name \<open>k\<close> is bound by a positional argument that is not \<open>None\<close> and given again by
  a keyword argument that is not \<open>None\<close>, \<open>build_parameters\<close> raises
  \<open>TweepError('Multiple values for parameter k' supplied!')\<close>, where \<open>k'\<close> is the first
  keyword, in the order of \<open>kwargs\<close>, that is supplied both ways: no keyword before it
  collides. (So \<open>k'\<close> is \<open>k\<close> when \<open>k\<close> is the only one.) \<open>kwargs\<close> is a dict, so its
  keys are distinct.
\<close>

theorem duplicate_parameter:
  assumes fits: "\<forall>i<length args. args ! i \<noteq> PyNone \<longrightarrow> i < length allowed"
    and pos: "i < length args" "args ! i \<noteq> PyNone" "allowed ! i = k"
    and kw: "(k, v) \<in> set kwargs" "v \<noteq> PyNone"
    and dict: "distinct (map fst kwargs)"
  shows "\<exists>pre k' v' post.
           kwargs = pre @ (k', v') # post \<and>
           collides {allowed ! j | j. j < length args \<and> args ! j \<noteq> PyNone} (k', v') \<and>
           (\<forall>kv\<in>set pre.
              \<not> collides {allowed ! j | j. j < length args \<and> args ! j \<noteq> PyNone} kv) \<and>
           build_parameters allowed args kwargs =
             Inl (TweepError (''Multiple values for parameter '' @ k' @ '' supplied!'') None None)"
proof -
  let ?P = "{allowed ! j | j. j < length args \<and> args ! j \<noteq> PyNone}"
  have "\<forall>i<length args. args ! i \<noteq> PyNone \<longrightarrow> 0 + i < length allowed"
    using fits by simp
  from positional_fits [OF this, of "[]"]
  obtain p where p: "positional allowed 0 args [] = Inr p" by blast
  have keys: "fst ` set p = ?P"
    using positional_keys [OF p] by simp
  have "k \<in> ?P" using pos by blast
  with kw have "\<exists>x\<in>set kwargs. collides ?P x" by (force simp: collides_def)
  from split_list_first_prop [OF this]
  obtain pre x post where sp: "kwargs = pre @ x # post" "collides ?P x"
    "\<forall>y\<in>set pre. \<not> collides ?P y" by blast
  obtain k' v' where x: "x = (k', v')" by (cases x)
  have c: "v' \<noteq> PyNone" "k' \<in> fst ` set p"
    using sp(2) x keys by (simp_all add: collides_def)
  have q: "\<forall>kv\<in>set pre. \<not> collides (fst ` set p) kv"
    using sp(3) by (simp only: keys)
  have d: "distinct (map fst (pre @ (k', v') # post))"
    using dict sp(1) x by simp
  have "keyword kwargs p =
      Inl (TweepError (''Multiple values for parameter '' @ k' @ '' supplied!'') None None)"
    unfolding sp(1) x by (rule keyword_first_collision [OF q d c])
  with p have "build_parameters allowed args kwargs =
      Inl (TweepError (''Multiple values for parameter '' @ k' @ '' supplied!'') None None)"
    by (simp add: build_parameters_def)
  with sp x show ?thesis by blast
qed

text \<open>
  The theorem of claim C3 at the schema \<open>['a', 'b']\<close>, called with
  \<open>('1', '2', b='3', a='4')\<close>: both keywords collide, and the error names \<open>b\<close>, the
  first of them in the order of the call.
\<close>

theorem duplicate_parameter_witness:
  "build_parameters [''a'', ''b''] [PyStr ''1'', PyStr ''2'']
     [(''b'', PyStr ''3''), (''a'', PyStr ''4'')] =
     Inl (TweepError ''Multiple values for parameter b supplied!'' None None)"
proof -
  let ?args = "[PyStr ''1'', PyStr ''2'']"
  let ?kwargs = "[(''b'', PyStr ''3''), (''a'', PyStr ''4'')]"
  let ?P = "{[''a'', ''b''] ! j | j. j < length ?args \<and> ?args ! j \<noteq> PyNone}"
  have fits: "\<forall>i<length ?args. ?args ! i \<noteq> PyNone \<longrightarrow> i < length [''a'', ''b'']"
    by simp
  have pos: "0 < length ?args" "?args ! 0 \<noteq> PyNone" "[''a'', ''b''] ! 0 = ''a''"
    by simp_all
  have kw: "(''a'', PyStr ''4'') \<in> set ?kwargs" "PyStr ''4'' \<noteq> PyNone"
    "distinct (map fst ?kwargs)"
    by simp_all
  from duplicate_parameter [OF fits pos kw]
  obtain pre k' v' post where d: "?kwargs = pre @ (k', v') # post"
    "\<forall>kv\<in>set pre. \<not> collides ?P kv"
    "build_parameters [''a'', ''b''] ?args ?kwargs =
       Inl (TweepError (''Multiple values for parameter '' @ k' @ '' supplied!'') None None)"
    by blast
  have b: "collides ?P (''b'', PyStr ''3'')"
    by (simp add: collides_def) (rule exI [of _ 1], simp)
  have "pre = []"
  proof (cases pre)
    case (Cons y ys)
    with d(1) have "y = (''b'', PyStr ''3'')" by simp
    with Cons d(2) b show ?thesis by simp
  qed simp
  with d(1) have "k' = ''b''" by simp
  with d(3) show ?thesis by simp
qed

text \<open>
  Claim C3 as stated fails: a keyword argument whose value is \<open>None\<close> is skipped
  (line 66) before the collision test, so nothing is raised.
\<close>

theorem duplicate_parameter_counterexample:
  "build_parameters [''id''] [PyInt 7] [(''id'', PyNone)] = Inr [(''id'', ''7'')]"
  by code_simp

section \<open>Properties of \<open>execute\<close>\<close>


lemma emit_simps [simp]:
  "trace (emit x s) = trace s @ [x]" "self (emit x s) = self s"
  "retries_performed (emit x s) = retries_performed s" "resp (emit x s) = resp s"
  by (simp_all add: emit_def)

lemma quiet_simps [simp]:
  "quiet []" "quiet (x # xs) \<longleftrightarrow> \<not> is_request x \<and> \<not> is_cache_event x \<and> quiet xs"
  "quiet (xs @ ys) \<longleftrightarrow> quiet xs \<and> quiet ys"
  by (auto simp: quiet_def)

lemma count_sends_simps [simp]:
  "count_sends [] = 0"
  "count_sends (xs @ ys) = count_sends xs + count_sends ys"
  "count_sends (x # xs) = (if is_request x then Suc (count_sends xs) else count_sends xs)"
  by (simp_all add: count_sends_def)

lemma quiet_count_sends: "quiet ext \<Longrightarrow> count_sends ext = 0"
  by (induction ext) auto

lemma quiet_cache: "quiet ext \<Longrightarrow> filter is_cache_event ext = []"
  by (induction ext) auto

lemma gate_frame [simp]:
  "self (snd (rate_limit_gate e s)) = self s"
  "retries_performed (snd (rate_limit_gate e s)) = retries_performed s"
  "resp (snd (rate_limit_gate e s)) = resp s"
  by (simp_all add: rate_limit_gate_def Let_def split: option.splits)

lemma gate_trace: "\<exists>ext. trace (snd (rate_limit_gate e s)) = trace s @ ext \<and> quiet ext"
  by (simp add: rate_limit_gate_def Let_def split: option.splits)

lemma auth_frame [simp]:
  "self (apply_auth s) = self s"
  "retries_performed (apply_auth s) = retries_performed s"
  "resp (apply_auth s) = resp s"
  by (simp_all add: apply_auth_def split: option.splits)

lemma auth_trace:
  "trace (apply_auth s) = trace s @ (if auth (api (self s)) = None then [] else [ApplyAuth])"
  by (simp add: apply_auth_def split: option.splits)

lemma update_remaining_frame:
  "update_remaining e r m = Inr m' \<Longrightarrow> api m' = api m \<and> params m' = params m"
  by (auto simp: update_remaining_def split: option.splits)

lemma update_reset_frame:
  "update_reset e r m = Inr m' \<Longrightarrow> api m' = api m \<and> params m' = params m"
  by (auto simp: update_reset_def split: option.splits)

lemma sleep_and_retry_result:
  "sleep_and_retry e d s = (f, s') \<Longrightarrow>
   self s' = self s \<and> resp s' = resp s \<and>
   ((\<exists>err. f = Raise err \<and> s' = s) \<or>
    (f = Continue \<and> trace s' = trace s @ [Sleep d] \<and>
     retries_performed s' = retries_performed s + 1))"
  by (auto simp: sleep_and_retry_def split: option.splits)

lemma decide_cases:
  assumes "decide e r s = (f, s')"
  obtains "f = Continue" "s' = s" | "f = Break" "s' = s" | "f = Raise ValueError" "s' = s"
    | d where "sleep_and_retry e d s = (f, s')"
proof (cases "status_code r \<in> {420, 429} \<and> wait_on_rate_limit (api (self s))")
  case True
  show ?thesis
  proof (cases "remaining_calls (self s) = Some 0")
    case zero: True
    with True assms have "f = Continue" "s' = s" by (simp_all add: decide_def)
    then show ?thesis by (rule that(1))
  next
    case nonzero: False
    show ?thesis
    proof (cases "map_of (headers r) ''retry-after''")
      case None
      with True nonzero assms have "sleep_and_retry e (retry_delay (api (self s))) s = (f, s')"
        by (simp add: decide_def)
      then show ?thesis by (rule that(4))
    next
      case (Some v)
      show ?thesis
      proof (cases "py_float e v")
        case None
        with Some True nonzero assms have "f = Raise ValueError" "s' = s"
          by (simp_all add: decide_def)
        then show ?thesis by (rule that(3))
      next
        case (Some d)
        with \<open>map_of (headers r) ''retry-after'' = Some v\<close> True nonzero assms
        have "sleep_and_retry e d s = (f, s')" by (simp add: decide_def)
        then show ?thesis by (rule that(4))
      qed
    qed
  qed
next
  case False
  show ?thesis
  proof (cases "retry_errors (api (self s)) \<noteq> [] \<and> status_code r \<notin> set (retry_errors (api (self s)))")
    case True
    with False assms have "f = Break" "s' = s" by (auto simp add: decide_def)
    then show ?thesis by (rule that(2))
  next
    case nb: False
    with False assms have "sleep_and_retry e (retry_delay (api (self s))) s = (f, s')"
      by (auto simp add: decide_def)
    then show ?thesis by (rule that(4))
  qed
qed

lemma decide_result:
  assumes "decide e r s = (f, s')"
  shows "self s' = self s \<and> resp s' = resp s \<and>
   ((trace s' = trace s \<and> retries_performed s' = retries_performed s) \<or>
    (\<exists>d. f = Continue \<and> trace s' = trace s @ [Sleep d] \<and>
          retries_performed s' = retries_performed s + 1))"
  using assms
proof (cases rule: decide_cases)
  case (4 d)
  from sleep_and_retry_result [OF this] show ?thesis by blast
qed simp_all

lemma classify_cases:
  assumes "classify e r s = (f, s')"
  obtains "200 \<le> status_code r" "status_code r < 300" "f = Break" "s' = s"
    | "\<not> (200 \<le> status_code r \<and> status_code r < 300)"
      "update_remaining e r (self s) = Inl ValueError" "f = Raise ValueError" "s' = s"
    | m1 where "\<not> (200 \<le> status_code r \<and> status_code r < 300)"
      "update_remaining e r (self s) = Inr m1" "update_reset e r m1 = Inl ValueError"
      "f = Raise ValueError" "s' = s\<lparr>self := m1\<rparr>"
    | m1 m2 where "\<not> (200 \<le> status_code r \<and> status_code r < 300)"
      "update_remaining e r (self s) = Inr m1" "update_reset e r m1 = Inr m2"
      "decide e r (s\<lparr>self := m2\<rparr>) = (f, s')"
proof (cases "200 \<le> status_code r \<and> status_code r < 300")
  case True
  with assms have "f = Break" "s' = s" by (simp_all add: classify_def)
  with True show ?thesis using that(1) by blast
next
  case False
  then have nb: "(200 \<le> status_code r \<and> status_code r < 300) = False" by simp
  have body: "(case update_remaining e r (self s) of
        Inl err \<Rightarrow> (Raise err, s)
      | Inr m1 \<Rightarrow>
          (case update_reset e r m1 of
             Inl err \<Rightarrow> (Raise err, s\<lparr>self := m1\<rparr>)
           | Inr m2 \<Rightarrow> decide e r (s\<lparr>self := m2\<rparr>))) = (f, s')"
    using assms unfolding classify_def by (simp only: nb if_False)
  show ?thesis
  proof (cases "update_remaining e r (self s)")
    case (Inl err)
    then have "err = ValueError"
      by (simp add: update_remaining_def split: option.splits)
    with Inl body have "f = Raise ValueError" "s' = s" by simp_all
    with False Inl \<open>err = ValueError\<close> show ?thesis using that(2) by blast
  next
    case (Inr m1)
    show ?thesis
    proof (cases "update_reset e r m1")
      case (Inl err)
      then have "err = ValueError"
        by (simp add: update_reset_def split: option.splits)
      with Inl Inr body have "f = Raise ValueError" "s' = s\<lparr>self := m1\<rparr>"
        by simp_all
      with False Inl Inr \<open>err = ValueError\<close> show ?thesis using that(3) by blast
    next
      case m2: (Inr m2)
      with Inr body have "decide e r (s\<lparr>self := m2\<rparr>) = (f, s')"
        by simp
      with False Inr m2 show ?thesis using that(4) by blast
    qed
  qed
qed

lemma classify_result:
  assumes "classify e r s = (f, s')"
  shows "api (self s') = api (self s) \<and> params (self s') = params (self s) \<and> resp s' = resp s \<and>
   ((trace s' = trace s \<and> retries_performed s' = retries_performed s) \<or>
    (\<exists>d. f = Continue \<and> trace s' = trace s @ [Sleep d] \<and>
          retries_performed s' = retries_performed s + 1))"
  using assms
proof (cases rule: classify_cases)
  case 1
  then show ?thesis by simp
next
  case 2
  then show ?thesis by simp
next
  case (3 m1)
  with update_remaining_frame [OF 3(2)] show ?thesis by simp
next
  case (4 m1 m2)
  from decide_result [OF 4(4)] update_remaining_frame [OF 4(2)] update_reset_frame [OF 4(3)]
  show ?thesis by simp
qed

lemma prepare_frame [simp]:
  "self (apply_auth (snd (rate_limit_gate e s))) = self s"
  "retries_performed (apply_auth (snd (rate_limit_gate e s))) = retries_performed s"
  "resp (apply_auth (snd (rate_limit_gate e s))) = resp s"
  by simp_all

lemma prepare_trace:
  "\<exists>ext. trace (apply_auth (snd (rate_limit_gate e s))) = trace s @ ext \<and> quiet ext"
proof -
  obtain ext where "trace (snd (rate_limit_gate e s)) = trace s @ ext" "quiet ext"
    using gate_trace by blast
  then have "trace (apply_auth (snd (rate_limit_gate e s))) =
      trace s @ (ext @ (if auth (api (self s)) = None then [] else [ApplyAuth]))
    \<and> quiet (ext @ (if auth (api (self s)) = None then [] else [ApplyAuth]))"
    by (simp add: auth_trace)
  then show ?thesis by blast
qed

lemma prepare_sends [simp]:
  "count_sends (trace (apply_auth (snd (rate_limit_gate e s)))) = count_sends (trace s)"
  using prepare_trace [of e s] by (auto simp: quiet_count_sends)

lemma iteration_unfold:
  "iteration e v u d s =
     (case fst (rate_limit_gate e s) of
        Some err \<Rightarrow> (Raise err, snd (rate_limit_gate e s))
      | None \<Rightarrow>
          (case responses e (count_sends (trace s)) of
             Inl msg \<Rightarrow>
               (Raise (TweepError (''Failed to send request: '' @ msg) None None),
                emit (Request v u d (auth (api (self s)))) (apply_auth (snd (rate_limit_gate e s))))
           | Inr r \<Rightarrow>
               classify e r ((emit (Request v u d (auth (api (self s))))
                               (apply_auth (snd (rate_limit_gate e s))))\<lparr>resp := Some r\<rparr>)))"
  by (simp add: iteration_def Let_def split_beta split: option.splits sum.splits)

lemma iteration_cases:
  assumes "iteration e v u d s = (f, s')"
  obtains err where "rate_limit_gate e s = (Some err, s')" "f = Raise err"
    | msg where "fst (rate_limit_gate e s) = None"
      "responses e (count_sends (trace s)) = Inl msg"
      "f = Raise (TweepError (''Failed to send request: '' @ msg) None None)"
      "s' = emit (Request v u d (auth (api (self s)))) (apply_auth (snd (rate_limit_gate e s)))"
    | r where "fst (rate_limit_gate e s) = None"
      "responses e (count_sends (trace s)) = Inr r"
      "classify e r ((emit (Request v u d (auth (api (self s))))
                        (apply_auth (snd (rate_limit_gate e s))))\<lparr>resp := Some r\<rparr>) = (f, s')"
proof (cases "fst (rate_limit_gate e s)")
  case (Some err)
  with assms have "f = Raise err" "snd (rate_limit_gate e s) = s'"
    by (simp_all add: iteration_unfold)
  with Some have "rate_limit_gate e s = (Some err, s')" "f = Raise err"
    by (simp_all add: prod_eq_iff)
  then show ?thesis by (rule that(1))
next
  case None
  show ?thesis
  proof (cases "responses e (count_sends (trace s))")
    case (Inl msg)
    with assms None have "f = Raise (TweepError (''Failed to send request: '' @ msg) None None)"
      "s' = emit (Request v u d (auth (api (self s)))) (apply_auth (snd (rate_limit_gate e s)))"
      by (simp_all add: iteration_unfold)
    with None Inl show ?thesis using that(2) by blast
  next
    case (Inr r)
    with assms None have "classify e r ((emit (Request v u d (auth (api (self s))))
                        (apply_auth (snd (rate_limit_gate e s))))\<lparr>resp := Some r\<rparr>) = (f, s')"
      by (simp add: iteration_unfold)
    with None Inr show ?thesis using that(3) by blast
  qed
qed

lemma iteration_result:
  assumes "iteration e v u d s = (f, s')"
  shows "api (self s') = api (self s) \<and> params (self s') = params (self s) \<and>
    (\<exists>ext. trace s' = trace s @ ext \<and> filter is_cache_event ext = [] \<and>
           (f = Break \<or> f = Continue \<longrightarrow> count_sends ext = 1)) \<and>
    (retries_performed s' = retries_performed s \<or>
     (f = Continue \<and> retries_performed s' = retries_performed s + 1)) \<and>
    (f = Break \<or> f = Continue \<longrightarrow>
       (\<exists>r. responses e (count_sends (trace s)) = Inr r \<and> resp s' = Some r))"
proof -
  obtain gx where gx: "trace (snd (rate_limit_gate e s)) = trace s @ gx" "quiet gx"
    using gate_trace by blast
  obtain ext where ext: "trace (apply_auth (snd (rate_limit_gate e s))) = trace s @ ext" "quiet ext"
    using prepare_trace by blast
  let ?rq = "Request v u d (auth (api (self s)))"
  from assms show ?thesis
  proof (cases rule: iteration_cases)
    case (1 err)
    then have s': "s' = snd (rate_limit_gate e s)" by simp
    have "trace s' = trace s @ gx \<and> filter is_cache_event gx = [] \<and>
        (f = Break \<or> f = Continue \<longrightarrow> count_sends gx = 1)"
      using gx 1(2) by (simp add: s' quiet_cache)
    then have "\<exists>ext. trace s' = trace s @ ext \<and> filter is_cache_event ext = [] \<and>
           (f = Break \<or> f = Continue \<longrightarrow> count_sends ext = 1)" by blast
    with 1(2) show ?thesis by (simp add: s')
  next
    case (2 msg)
    have "trace s' = trace s @ (ext @ [?rq]) \<and> filter is_cache_event (ext @ [?rq]) = [] \<and>
        (f = Break \<or> f = Continue \<longrightarrow> count_sends (ext @ [?rq]) = 1)"
      using 2(4) ext by (simp add: quiet_count_sends quiet_cache)
    then have "\<exists>ext. trace s' = trace s @ ext \<and> filter is_cache_event ext = [] \<and>
           (f = Break \<or> f = Continue \<longrightarrow> count_sends ext = 1)"
      by blast
    with 2 show ?thesis by simp
  next
    case (3 r)
    let ?s3 = "(emit ?rq (apply_auth (snd (rate_limit_gate e s))))\<lparr>resp := Some r\<rparr>"
    from classify_result [OF 3(3)]
    have c: "api (self s') = api (self s)" "params (self s') = params (self s)" "resp s' = Some r"
      "(trace s' = trace ?s3 \<and> retries_performed s' = retries_performed s) \<or>
       (\<exists>d. f = Continue \<and> trace s' = trace ?s3 @ [Sleep d] \<and>
          retries_performed s' = retries_performed s + 1)"
      by simp_all
    have t3: "trace ?s3 = trace s @ (ext @ [?rq])" using ext by simp
    from c(4) have "\<exists>ext. trace s' = trace s @ ext \<and> filter is_cache_event ext = [] \<and>
        count_sends ext = 1"
    proof
      assume "trace s' = trace ?s3 \<and> retries_performed s' = retries_performed s"
      then have "trace s' = trace s @ (ext @ [?rq]) \<and> filter is_cache_event (ext @ [?rq]) = []
        \<and> count_sends (ext @ [?rq]) = 1"
        using t3 ext(2) by (simp add: quiet_count_sends quiet_cache)
      then show ?thesis by blast
    next
      assume "\<exists>d. f = Continue \<and> trace s' = trace ?s3 @ [Sleep d] \<and>
          retries_performed s' = retries_performed s + 1"
      then obtain dl where "trace s' = trace ?s3 @ [Sleep dl]" by blast
      then have "trace s' = trace s @ (ext @ [?rq, Sleep dl]) \<and>
          filter is_cache_event (ext @ [?rq, Sleep dl]) = [] \<and>
          count_sends (ext @ [?rq, Sleep dl]) = 1"
        using t3 ext(2) by (simp add: quiet_count_sends quiet_cache)
      then show ?thesis by blast
    qed
    then have "\<exists>ext. trace s' = trace s @ ext \<and> filter is_cache_event ext = [] \<and>
           (f = Break \<or> f = Continue \<longrightarrow> count_sends ext = 1)" by blast
    moreover from c(4) have "retries_performed s' = retries_performed s \<or>
     (f = Continue \<and> retries_performed s' = retries_performed s + 1)" by blast
    ultimately show ?thesis using c(1,2,3) 3(2) by simp
  qed
qed

lemma loop_exit:
  "\<not> retries_performed s < retry_count (api (self s)) + 1 \<Longrightarrow>
   request_loop e v u d fuel s = Some (None, s)"
  by (subst request_loop.simps) simp

lemma loop_zero:
  "retries_performed s < retry_count (api (self s)) + 1 \<Longrightarrow> request_loop e v u d 0 s = None"
  by (subst request_loop.simps) simp

lemma loop_step:
  "retries_performed s < retry_count (api (self s)) + 1 \<Longrightarrow>
   request_loop e v u d (Suc n) s =
     (case iteration e v u d s of
        (Raise err, s') \<Rightarrow> Some (Some err, s')
      | (Break, s') \<Rightarrow> Some (None, s')
      | (Continue, s') \<Rightarrow> request_loop e v u d n s')"
  by (subst request_loop.simps) simp

lemma loop_cases:
  assumes "request_loop e v u d fuel s = Some (x, s')"
  obtains "\<not> retries_performed s < retry_count (api (self s)) + 1" "x = None" "s' = s"
    | n err where "retries_performed s < retry_count (api (self s)) + 1" "fuel = Suc n"
        "iteration e v u d s = (Raise err, s')" "x = Some err"
    | n where "retries_performed s < retry_count (api (self s)) + 1" "fuel = Suc n"
        "iteration e v u d s = (Break, s')" "x = None"
    | n s1 where "retries_performed s < retry_count (api (self s)) + 1" "fuel = Suc n"
        "iteration e v u d s = (Continue, s1)" "request_loop e v u d n s1 = Some (x, s')"
proof (cases "retries_performed s < retry_count (api (self s)) + 1")
  case False
  with assms have "x = None" "s' = s" by (simp_all add: loop_exit)
  with False show ?thesis using that(1) by blast
next
  case True
  show ?thesis
  proof (cases fuel)
    case 0
    with True assms show ?thesis by (simp add: loop_zero)
  next
    case (Suc n)
    obtain f s1 where it: "iteration e v u d s = (f, s1)" by (cases "iteration e v u d s")
    show ?thesis
    proof (cases f)
      case (Raise err)
      with it True Suc assms have "x = Some err" "s1 = s'" by (simp_all add: loop_step)
      with it Raise True Suc show ?thesis using that(2) by blast
    next
      case Break
      with it True Suc assms have "x = None" "s1 = s'" by (simp_all add: loop_step)
      with it Break True Suc show ?thesis using that(3) by blast
    next
      case Continue
      with it True Suc assms have "request_loop e v u d n s1 = Some (x, s')"
        by (simp add: loop_step)
      with it Continue True Suc show ?thesis using that(4) by blast
    qed
  qed
qed

lemma loop_result:
  "request_loop e v u d fuel s = Some (x, s') \<Longrightarrow>
    api (self s') = api (self s) \<and> params (self s') = params (self s) \<and>
    (\<exists>ext. trace s' = trace s @ ext \<and> filter is_cache_event ext = [])"
proof (induction fuel arbitrary: s)
  case 0
  then show ?case by (cases rule: loop_cases) simp_all
next
  case (Suc fuel)
  from Suc.prems show ?case
  proof (cases rule: loop_cases)
    case 1
    then show ?thesis by simp
  next
    case (2 n err)
    from iteration_result [OF 2(3)] show ?thesis by blast
  next
    case (3 n)
    from iteration_result [OF 3(3)] show ?thesis by blast
  next
    case (4 n s1)
    then have "request_loop e v u d fuel s1 = Some (x, s')" by simp
    from Suc.IH [OF this] obtain ext2 where
      a: "api (self s') = api (self s1)" "params (self s') = params (self s1)"
      "trace s' = trace s1 @ ext2" "filter is_cache_event ext2 = []" by blast
    from iteration_result [OF 4(3)] obtain ext1 where
      b: "api (self s1) = api (self s)" "params (self s1) = params (self s)"
      "trace s1 = trace s @ ext1" "filter is_cache_event ext1 = []" by blast
    have "trace s' = trace s @ (ext1 @ ext2) \<and> filter is_cache_event (ext1 @ ext2) = []"
      using a b by simp
    then have "\<exists>ext. trace s' = trace s @ ext \<and> filter is_cache_event ext = []" by blast
    with a b show ?thesis by simp
  qed
qed

lemma iteration_received:
  assumes "iteration e v u d s = (f, s')" and "f = Break \<or> f = Continue"
  shows "\<exists>r. resp s' = Some r \<and> 0 < count_sends (trace s') \<and>
             responses e (count_sends (trace s') - 1) = Inr r"
proof -
  from iteration_result [OF assms(1)] assms(2) obtain ext r where
    r: "trace s' = trace s @ ext" "count_sends ext = 1"
    "responses e (count_sends (trace s)) = Inr r" "resp s' = Some r" by blast
  then show ?thesis by simp
qed

lemma loop_received:
  "request_loop e v u d fuel s = Some (None, s') \<Longrightarrow>
   s' = s \<or> (\<exists>r. resp s' = Some r \<and> 0 < count_sends (trace s') \<and>
                  responses e (count_sends (trace s') - 1) = Inr r)"
proof (induction fuel arbitrary: s)
  case 0
  then show ?case by (cases rule: loop_cases) simp_all
next
  case (Suc fuel)
  from Suc.prems show ?case
  proof (cases rule: loop_cases)
    case 1
    then show ?thesis by simp
  next
    case (2 n err)
    then show ?thesis by simp
  next
    case (3 n)
    from iteration_received [OF 3(3)] show ?thesis by simp
  next
    case (4 n s1)
    then have "request_loop e v u d fuel s1 = Some (None, s')" by simp
    from Suc.IH [OF this] iteration_received [OF 4(3)] show ?thesis by auto
  qed
qed

lemma owned_by_set_api: "owned_by a (set_api a v)"
  by (cases v) simp_all

lemma attached_restore_api: "attached a (restore_api a v)"
  by (cases v) (simp_all add: list_all_iff owned_by_set_api)

lemma entry_simps [simp]:
  "api (entry m) = (api m)\<lparr>cached_result := False\<rparr>"
  "params (entry m) = params m" "m_api_root (entry m) = m_api_root m"
  "path (entry m) = path m" "m_host (entry m) = m_host m"
  "remaining_calls (entry m) = remaining_calls m" "reset_time (entry m) = reset_time m"
  by (simp_all add: entry_def)

lemma entry_api_update [simp]: "(entry m)\<lparr>api := a\<rparr> = m\<lparr>api := a\<rparr>"
  by (simp add: entry_def)

text \<open>
  Claim C5, as the code has it. On a GET call with \<open>use_cache\<close> and a cache configured,
  when the lookup under \<open>url + '?' + urlencode(params)\<close> gives a truthy object,
  \<open>execute\<close> returns that object with the API reference restored on it if it is a
  \<open>Model\<close> (on each element that is a \<open>Model\<close> if it is a list). The only call made is
  the lookup: no request, no authentication, no sleep. The method object is unchanged
  except for \<open>api.cached_result = True\<close>, so the rate-limit state is untouched. This
  holds for any fuel, the loop not being entered.
\<close>

theorem cache_hit_returns:
  assumes "use_cache" and "cache (api m)" and "verb = ''GET''"
    and "cache_get e (cache_key (m_api_root m @ path m) (params m)) = Some v"
    and "truthy v"
  shows "execute e fuel m verb post_data return_cursors use_cache =
           Some (Inr (restore_api (api_id (api m)) v),
                 m\<lparr>api := (api m)\<lparr>cached_result := True\<rparr>\<rparr>,
                 [CacheGet (cache_key (m_api_root m @ path m) (params m))])
         \<and> attached (api_id (api m)) (restore_api (api_id (api m)) v)"
proof -
  have "cache_phase e (entry m) (m_api_root m @ path m) verb use_cache =
      (Some v, [CacheGet (cache_key (m_api_root m @ path m) (params m))])"
    using assms by (simp add: cache_phase_def)
  then have "execute e fuel m verb post_data return_cursors use_cache =
           Some (Inr (restore_api (api_id (api m)) v),
                 m\<lparr>api := (api m)\<lparr>cached_result := True\<rparr>\<rparr>,
                 [CacheGet (cache_key (m_api_root m @ path m) (params m))])"
    by (simp add: execute_def Let_def)
  then show ?thesis by (simp add: attached_restore_api)
qed

lemma cache_phase_cases:
  obtains v where "cache_phase e m url verb uc = (Some v, [CacheGet (cache_key url (params m))])"
      "uc" "cache (api m)" "verb = ''GET''" "cache_get e (cache_key url (params m)) = Some v" "truthy v"
    | "cache_phase e m url verb uc = (None, [CacheGet (cache_key url (params m))])"
      "uc" "cache (api m)" "verb = ''GET''"
    | "cache_phase e m url verb uc = (None, [])" "\<not> (uc \<and> cache (api m) \<and> verb = ''GET'')"
proof (cases "uc \<and> cache (api m) \<and> verb = ''GET''")
  case False
  then have "cache_phase e m url verb uc = (None, [])" by (auto simp: cache_phase_def)
  with False show ?thesis using that(3) by blast
next
  case True
  show ?thesis
  proof (cases "cache_get e (cache_key url (params m))")
    case None
    with True have "cache_phase e m url verb uc = (None, [CacheGet (cache_key url (params m))])"
      by (simp add: cache_phase_def)
    with True show ?thesis using that(2) by blast
  next
    case (Some v)
    show ?thesis
    proof (cases "truthy v")
      case t: True
      with Some True have "cache_phase e m url verb uc = (Some v, [CacheGet (cache_key url (params m))])"
        by (simp add: cache_phase_def)
      with True Some t show ?thesis using that(1) by blast
    next
      case f: False
      with Some True have "cache_phase e m url verb uc = (None, [CacheGet (cache_key url (params m))])"
        by (simp add: cache_phase_def)
      with True show ?thesis using that(2) by blast
    qed
  qed
qed

lemma execute_miss:
  "cache_phase e (entry m) (m_api_root m @ path m) verb uc = (None, tr0) \<Longrightarrow>
   execute e fuel m verb pd rc uc =
     request_and_finish e fuel (entry m) tr0 (m_api_root m @ path m) verb pd rc uc"
  by (simp add: execute_def Let_def)

lemma request_and_finish_exit:
  "request_loop e verb (''https://'' @ m_host m @ url) pd fuel (loop_start m tr0) = Some (None, s) \<Longrightarrow>
   request_and_finish e fuel m tr0 url verb pd rc uc = Some (finish e url verb rc uc s)"
  by (simp add: request_and_finish_def)

lemma request_and_finish_raise:
  "request_loop e verb (''https://'' @ m_host m @ url) pd fuel (loop_start m tr0) = Some (Some err, s) \<Longrightarrow>
   request_and_finish e fuel m tr0 url verb pd rc uc = Some (Inl err, self s, trace s)"
  by (simp add: request_and_finish_def)

lemma finish_error:
  "resp s = Some r \<Longrightarrow> status_code r \<noteq> 0 \<Longrightarrow> \<not> (200 \<le> status_code r \<and> status_code r < 300) \<Longrightarrow>
   finish e url verb rc uc s =
     (Inl (api_error e r), (self s)\<lparr>api := (api (self s))\<lparr>last_response := Some r\<rparr>\<rparr>, trace s)"
  by (simp add: finish_def Let_def)

text \<open>
  Claim C7. Whenever the cache phase does not return and the retry loop is left, without
  an exception, with a last response \<open>r\<close> whose status is not 2xx, \<open>execute\<close> raises
  \<open>api_error e r\<close>: with the message and code of \<open>parse_error\<close> (or, when
  \<open>parse_error\<close> raises, the message \<open>Twitter error response: status code = \<dots>\<close> and
  no code), it is \<open>RateLimitError\<close> with the message and the response if the message
  matches the rate-limit signature, and otherwise \<open>TweepError\<close> with the message, the
  response and the code. The status of an HTTP response is a three-digit number, so it is
  not 0 (line 161 tests \<open>resp.status_code\<close> for truth first).
\<close>

theorem error_surfacing:
  assumes miss: "cache_phase e (entry m) (m_api_root m @ path m) verb use_cache = (None, tr0)"
    and loop: "request_loop e verb (''https://'' @ m_host m @ (m_api_root m @ path m)) post_data fuel
                (loop_start (entry m) tr0) = Some (None, s)"
    and last: "resp s = Some r"
    and status: "status_code r \<noteq> 0" "\<not> (200 \<le> status_code r \<and> status_code r < 300)"
  shows "execute e fuel m verb post_data return_cursors use_cache =
           Some (Inl (api_error e r),
                 (self s)\<lparr>api := (api (self s))\<lparr>last_response := Some r\<rparr>\<rparr>, trace s)
         \<and> (case parse_error e (text_body r) of
               Some (msg, code) \<Rightarrow>
                 api_error e r = (if is_rate_limit_error_message e msg then RateLimitError msg r
                                  else TweepError msg (Some r) code)
             | None \<Rightarrow>
                 api_error e r =
                   (if is_rate_limit_error_message e
                         (''Twitter error response: status code = '' @ str_int (status_code r))
                    then RateLimitError
                           (''Twitter error response: status code = '' @ str_int (status_code r)) r
                    else TweepError
                           (''Twitter error response: status code = '' @ str_int (status_code r))
                           (Some r) None))"
proof -
  have l: "request_loop e verb (''https://'' @ m_host (entry m) @ (m_api_root m @ path m)) post_data fuel
                (loop_start (entry m) tr0) = Some (None, s)"
    using loop by simp
  have "execute e fuel m verb post_data return_cursors use_cache =
      Some (finish e (m_api_root m @ path m) verb return_cursors use_cache s)"
    by (simp only: execute_miss [OF miss] request_and_finish_exit [OF l])
  then have "execute e fuel m verb post_data return_cursors use_cache =
           Some (Inl (api_error e r),
                 (self s)\<lparr>api := (api (self s))\<lparr>last_response := Some r\<rparr>\<rparr>, trace s)"
    by (simp only: finish_error [OF last status])
  moreover have "case parse_error e (text_body r) of
               Some (msg, code) \<Rightarrow>
                 api_error e r = (if is_rate_limit_error_message e msg then RateLimitError msg r
                                  else TweepError msg (Some r) code)
             | None \<Rightarrow>
                 api_error e r =
                   (if is_rate_limit_error_message e
                         (''Twitter error response: status code = '' @ str_int (status_code r))
                    then RateLimitError
                           (''Twitter error response: status code = '' @ str_int (status_code r)) r
                    else TweepError
                           (''Twitter error response: status code = '' @ str_int (status_code r))
                           (Some r) None)"
    by (simp add: api_error_def error_message_def split: option.splits)
  ultimately show ?thesis by blast
qed

lemma request_and_finish_cases:
  assumes "request_and_finish e fuel m tr0 url verb pd rc uc = Some out"
  obtains err s where
      "request_loop e verb (''https://'' @ m_host m @ url) pd fuel (loop_start m tr0) = Some (Some err, s)"
      "out = (Inl err, self s, trace s)"
    | s where
      "request_loop e verb (''https://'' @ m_host m @ url) pd fuel (loop_start m tr0) = Some (None, s)"
      "out = finish e url verb rc uc s"
proof (cases "request_loop e verb (''https://'' @ m_host m @ url) pd fuel (loop_start m tr0)")
  case None
  with assms show ?thesis by (simp add: request_and_finish_def)
next
  case (Some xs)
  obtain x s where xs: "xs = (x, s)" by (cases xs)
  show ?thesis
  proof (cases x)
    case None
    with Some xs assms have "out = finish e url verb rc uc s"
      by (simp add: request_and_finish_def)
    with Some xs None show ?thesis using that(2) by blast
  next
    case (Some err)
    with \<open>request_loop e verb (''https://'' @ m_host m @ url) pd fuel (loop_start m tr0) = Some xs\<close>
      xs assms have "out = (Inl err, self s, trace s)"
      by (simp add: request_and_finish_def)
    with \<open>request_loop e verb (''https://'' @ m_host m @ url) pd fuel (loop_start m tr0) = Some xs\<close>
      xs Some show ?thesis using that(1) by blast
  qed
qed

lemma finish_method:
  "finish e url verb rc uc s = (res, m', tr) \<Longrightarrow>
   m' = (case resp s of None \<Rightarrow> self s
         | Some r \<Rightarrow> (self s)\<lparr>api := (api (self s))\<lparr>last_response := Some r\<rparr>\<rparr>)"
  by (simp add: finish_def Let_def split: option.splits if_splits sum.splits)

lemma finish_trace:
  "finish e url verb rc uc s = (res, m', tr) \<Longrightarrow>
   tr = trace s @
     (case res of Inl err \<Rightarrow> []
      | Inr result \<Rightarrow>
          if uc \<and> cache (api (self s)) \<and> verb = ''GET'' \<and> truthy result
          then [CacheStore (cache_key url (params (self s))) result] else [])"
  by (auto simp add: finish_def Let_def split: option.splits if_splits sum.splits)

lemma loop_start_simps [simp]:
  "self (loop_start m tr) = m" "trace (loop_start m tr) = tr"
  "retries_performed (loop_start m tr) = 0" "resp (loop_start m tr) = None"
  by (simp_all add: loop_start_def)

text \<open>
  Claim C8. On a GET call with \<open>use_cache\<close> and a cache configured that returns a
  result parsed from a response (not one from the cache), the calls to the cache are the
  lookup under the key \<open>url + '?' + urlencode(params)\<close> and, exactly when the result is
  truthy, one store of the result under the same key; an empty result is not stored.
\<close>

theorem cache_population:
  assumes on: "use_cache" "cache (api m)" "verb = ''GET''"
    and ex: "execute e fuel m verb post_data return_cursors use_cache = Some (Inr result, m', tr)"
    and fresh: "\<not> cached_result (api m')"
  shows "filter is_cache_event tr =
           CacheGet (cache_key (m_api_root m @ path m) (params m)) #
           (if truthy result
            then [CacheStore (cache_key (m_api_root m @ path m) (params m)) result] else [])"
proof -
  let ?url = "m_api_root m @ path m"
  let ?key = "cache_key ?url (params m)"
  show ?thesis
  proof (cases rule: cache_phase_cases [of e "entry m" ?url verb use_cache])
    case (1 v)
    then have "execute e fuel m verb post_data return_cursors use_cache =
        Some (Inr (restore_api (api_id (api (entry m))) v),
              m\<lparr>api := (api (entry m))\<lparr>cached_result := True\<rparr>\<rparr>, [CacheGet ?key])"
      by (simp add: execute_def Let_def)
    with ex have "m' = m\<lparr>api := (api (entry m))\<lparr>cached_result := True\<rparr>\<rparr>" by simp
    then have "cached_result (api m')" by simp
    with fresh show ?thesis by simp
  next
    case 2
    then have miss: "cache_phase e (entry m) ?url verb use_cache = (None, [CacheGet ?key])"
      by simp
    from ex have "request_and_finish e fuel (entry m) [CacheGet ?key] ?url verb post_data
        return_cursors use_cache = Some (Inr result, m', tr)"
      by (simp only: execute_miss [OF miss])
    then show ?thesis
    proof (cases rule: request_and_finish_cases)
      case (1 err s)
      then show ?thesis by simp
    next
      case (2 s)
      from loop_result [OF 2(1)] obtain ext where
        l: "api (self s) = api (entry m)" "params (self s) = params m"
        "trace s = [CacheGet ?key] @ ext" "filter is_cache_event ext = []"
        by auto
      from 2(2) have "finish e ?url verb return_cursors use_cache s = (Inr result, m', tr)"
        by simp
      from finish_trace [OF this] have "tr = trace s @
         (if use_cache \<and> cache (api (self s)) \<and> verb = ''GET'' \<and> truthy result
          then [CacheStore (cache_key ?url (params (self s))) result] else [])"
        by simp
      with l on show ?thesis by simp
    qed
  next
    case 3
    with on show ?thesis by simp
  qed
qed

text \<open>
  Claim C10, as the code has it. Whenever \<open>execute\<close> returns or raises, the API object
  afterwards differs from the one before at most in \<open>cached_result\<close> and
  \<open>last_response\<close>. \<open>cached_result\<close> is true exactly when the result came from the
  cache, and then \<open>last_response\<close> is unchanged. When the retry loop is left without an
  exception, having received a response, \<open>last_response\<close> is the last response received
  (the answer to the last request). When an exception leaves the loop (a failed request,
  a rate-limit header that \<open>int\<close> rejects, a delay that \<open>time.sleep\<close> rejects),
  \<open>last_response\<close> is unchanged.
\<close>

theorem api_frame:
  assumes ex: "execute e fuel m verb post_data return_cursors use_cache = Some (res, m', tr)"
  shows "api m' = (api m)\<lparr>cached_result := cached_result (api m'),
                          last_response := last_response (api m')\<rparr>
       \<and> (cached_result (api m') \<longleftrightarrow>
            fst (cache_phase e (entry m) (m_api_root m @ path m) verb use_cache) \<noteq> None)
       \<and> (fst (cache_phase e (entry m) (m_api_root m @ path m) verb use_cache) \<noteq> None \<longrightarrow>
            last_response (api m') = last_response (api m))
       \<and> (\<forall>tr0 s r.
            cache_phase e (entry m) (m_api_root m @ path m) verb use_cache = (None, tr0) \<and>
            request_loop e verb (''https://'' @ m_host m @ (m_api_root m @ path m)) post_data fuel
              (loop_start (entry m) tr0) = Some (None, s) \<and> resp s = Some r \<longrightarrow>
            last_response (api m') = Some r \<and> 0 < count_sends tr \<and>
            responses e (count_sends tr - 1) = Inr r)
       \<and> (\<forall>tr0 s err.
            cache_phase e (entry m) (m_api_root m @ path m) verb use_cache = (None, tr0) \<and>
            request_loop e verb (''https://'' @ m_host m @ (m_api_root m @ path m)) post_data fuel
              (loop_start (entry m) tr0) = Some (Some err, s) \<longrightarrow>
            res = Inl err \<and> last_response (api m') = last_response (api m))"
proof -
  let ?url = "m_api_root m @ path m"
  let ?key = "cache_key ?url (params m)"
  let ?full = "''https://'' @ m_host m @ ?url"
  show ?thesis
  proof (cases "fst (cache_phase e (entry m) ?url verb use_cache)")
    case (Some v)
    then obtain tr0 where hit: "cache_phase e (entry m) ?url verb use_cache = (Some v, tr0)"
      by (cases "cache_phase e (entry m) ?url verb use_cache") simp
    with ex have "m' = m\<lparr>api := (api (entry m))\<lparr>cached_result := True\<rparr>\<rparr>"
      by (simp add: execute_def Let_def)
    then have "api m' = (api m)\<lparr>cached_result := True\<rparr>" by simp
    then have "api m' = (api m)\<lparr>cached_result := cached_result (api m'),
                          last_response := last_response (api m')\<rparr>"
      "cached_result (api m')" "last_response (api m') = last_response (api m)"
      by simp_all
    with hit show ?thesis by simp
  next
    case None
    then obtain tr0 where miss: "cache_phase e (entry m) ?url verb use_cache = (None, tr0)"
      by (cases "cache_phase e (entry m) ?url verb use_cache") simp
    from ex have "request_and_finish e fuel (entry m) tr0 ?url verb post_data
        return_cursors use_cache = Some (res, m', tr)"
      by (simp only: execute_miss [OF miss])
    then show ?thesis
    proof (cases rule: request_and_finish_cases)
      case (1 err s)
      then have loop: "request_loop e verb ?full post_data fuel (loop_start (entry m) tr0)
          = Some (Some err, s)" by simp
      from loop_result [OF loop] have "api (self s) = (api m)\<lparr>cached_result := False\<rparr>"
        by simp
      with 1(2) have a: "api m' = (api m)\<lparr>cached_result := False\<rparr>" "res = Inl err" by simp_all
      from a(1) have "api m' = (api m)\<lparr>cached_result := cached_result (api m'),
                          last_response := last_response (api m')\<rparr>"
      "\<not> cached_result (api m')" "last_response (api m') = last_response (api m)"
        by simp_all
      with miss loop a(2) show ?thesis by simp
    next
      case (2 s)
      then have loop: "request_loop e verb ?full post_data fuel (loop_start (entry m) tr0)
          = Some (None, s)" by simp
      from loop_result [OF loop] have as: "api (self s) = (api m)\<lparr>cached_result := False\<rparr>"
        by simp
      from 2(2) have fin: "finish e ?url verb return_cursors use_cache s = (res, m', tr)"
        by simp
      from finish_method [OF fin] as
      have a: "api m' = (case resp s of None \<Rightarrow> (api m)\<lparr>cached_result := False\<rparr>
                 | Some r \<Rightarrow> (api m)\<lparr>cached_result := False, last_response := Some r\<rparr>)"
        by (simp split: option.splits)
      then have frame: "api m' = (api m)\<lparr>cached_result := cached_result (api m'),
                          last_response := last_response (api m')\<rparr>"
        and nc: "\<not> cached_result (api m')"
        and lr: "\<And>r. resp s = Some r \<Longrightarrow> last_response (api m') = Some r"
        by (simp_all split: option.splits)
      have cnt: "count_sends tr = count_sends (trace s)"
        using finish_trace [OF fin] by (simp split: sum.splits)
      have rcv: "0 < count_sends tr \<and> responses e (count_sends tr - 1) = Inr r" if "resp s = Some r" for r
        using loop_received [OF loop] that cnt by auto
      from frame nc lr rcv miss loop show ?thesis by simp
    qed
  qed
qed


lemma accepted_gate_passes:
  assumes "gate_sleeps_accepted e (self s)"
  shows "fst (rate_limit_gate e s) = None"
proof (cases "wait_on_rate_limit (api (self s))")
  case False
  then show ?thesis by (simp add: rate_limit_gate_def Let_def split: option.splits)
next
  case True
  show ?thesis
  proof (cases "reset_time (self s)")
    case None
    then show ?thesis by (simp add: rate_limit_gate_def)
  next
    case (Some rt)
    show ?thesis
    proof (cases "0 < rt - clock e (count_reads (trace s))")
      case False
      with Some show ?thesis
        by (simp add: rate_limit_gate_def Let_def split: option.splits)
    next
      case pos: True
      from assms True Some pos
      have "time_sleep e (Num (of_int (rt - clock e (count_reads (trace s)) + 1))) = None"
        unfolding gate_sleeps_accepted_def by blast
      with Some show ?thesis
        by (simp add: rate_limit_gate_def Let_def split: option.splits)
    qed
  qed
qed

lemma update_reset_time:
  assumes "update_reset e r m = Inr m'"
  shows "reset_time m' = reset_time m \<or>
    (\<exists>v rt. map_of (headers r) ''x-rate-limit-reset'' = Some v \<and> py_int e v = Some rt \<and>
            reset_time m' = Some rt)"
  using assms by (auto simp: update_reset_def split: option.splits)

lemma update_remaining_reset: "update_remaining e r m = Inr m' \<Longrightarrow> reset_time m' = reset_time m"
  by (auto simp: update_remaining_def split: option.splits)

lemma accepted_bookkeeping:
  assumes acc: "gate_sleeps_accepted e m" and r: "responses e i = Inr r"
    and b: "update_remaining e r m = Inr m1" "update_reset e r m1 = Inr m2"
  shows "gate_sleeps_accepted e m2"
proof -
  have a: "api m2 = api m"
    using update_remaining_frame [OF b(1)] update_reset_frame [OF b(2)] by simp
  have t: "reset_time m2 = reset_time m \<or>
    (\<exists>v rt. map_of (headers r) ''x-rate-limit-reset'' = Some v \<and> py_int e v = Some rt \<and>
            reset_time m2 = Some rt)"
    using update_reset_time [OF b(2)] update_remaining_reset [OF b(1)] by simp
  show ?thesis
    unfolding gate_sleeps_accepted_def
  proof (intro impI allI)
    fix rt n
    assume w: "wait_on_rate_limit (api m2)"
      and k: "reset_time m2 = Some rt \<or>
          (\<exists>i r v. responses e i = Inr r \<and>
                   map_of (headers r) ''x-rate-limit-reset'' = Some v \<and>
                   py_int e v = Some rt)"
      and p: "0 < rt - clock e n"
    from k t r have "reset_time m = Some rt \<or>
          (\<exists>i r v. responses e i = Inr r \<and>
                   map_of (headers r) ''x-rate-limit-reset'' = Some v \<and>
                   py_int e v = Some rt)"
      by (metis option.inject)
    moreover from w a have "wait_on_rate_limit (api m)" by simp
    ultimately show "time_sleep e (Num (of_int (rt - clock e n + 1))) = None"
      using acc p unfolding gate_sleeps_accepted_def by blast
  qed
qed

lemma accepted_entry [simp]: "gate_sleeps_accepted e (entry m) = gate_sleeps_accepted e m"
  by (simp add: gate_sleeps_accepted_def)



lemma iteration_response:
  assumes "fst (rate_limit_gate e s) = None"
    and "responses e (count_sends (trace s)) = Inr r"
    and "\<not> (200 \<le> status_code r \<and> status_code r < 300)"
    and "update_remaining e r (self s) = Inr m1" and "update_reset e r m1 = Inr m2"
  shows "iteration e v u d s =
     decide e r ((emit (Request v u d (auth (api (self s))))
                   (apply_auth (snd (rate_limit_gate e s))))\<lparr>resp := Some r, self := m2\<rparr>)"
proof -
  have nb: "(200 \<le> status_code r \<and> status_code r < 300) = False" using assms(3) by simp
  show ?thesis
    unfolding iteration_unfold classify_def
    by (simp add: assms(1,2,4,5) nb)
qed

lemma bookkeeping_api:
  assumes "update_remaining e r m = Inr m1" and "update_reset e r m1 = Inr m2"
  shows "api m2 = api m"
  using update_remaining_frame [OF assms(1)] update_reset_frame [OF assms(2)] by simp

text \<open>
  Claim C6, as the code has it. When a response with status 429 or 420 arrives while
  waiting on the rate limit is enabled, the remaining-calls count after the bookkeeping
  for this response (the header \<open>x-rate-limit-remaining\<close> if there is one, otherwise
  the count known before minus one: the value line 146 tests) is greater than 0, the
  response has a \<open>retry-after\<close> header that \<open>float\<close> reads as \<open>dl\<close> (5 in the
  claim), and \<open>time.sleep\<close> accepts \<open>dl\<close>, the loop body sleeps \<open>dl\<close> seconds right
  after the request, whatever \<open>api.retry_delay\<close> is, counts one retry and goes back to
  the head of the loop.
\<close>

theorem retry_after_delay:
  assumes "fst (rate_limit_gate e s) = None"
    and "responses e (count_sends (trace s)) = Inr r"
    and "status_code r = 429 \<or> status_code r = 420"
    and "wait_on_rate_limit (api (self s))"
    and "update_remaining e r (self s) = Inr m1" and "update_reset e r m1 = Inr m2"
    and "remaining_calls m2 = Some c" and "0 < c"
    and "map_of (headers r) ''retry-after'' = Some v" and "py_float e v = Some dl"
    and "time_sleep e dl = None"
  shows "\<exists>s'. iteration e verb full_url post_data s = (Continue, s') \<and>
     trace s' = trace (apply_auth (snd (rate_limit_gate e s))) @
                  [Request verb full_url post_data (auth (api (self s))), Sleep dl] \<and>
     retries_performed s' = retries_performed s + 1"
proof -
  have nb: "\<not> (200 \<le> status_code r \<and> status_code r < 300)" using assms(3) by auto
  have a: "api m2 = api (self s)" by (rule bookkeeping_api [OF assms(5,6)])
  let ?s = "(emit (Request verb full_url post_data (auth (api (self s))))
                   (apply_auth (snd (rate_limit_gate e s))))\<lparr>resp := Some r, self := m2\<rparr>"
  have "decide e r ?s = sleep_and_retry e dl ?s"
    using assms(3,4,7,8,9,10) a by (auto simp add: decide_def)
  also have "\<dots> = (Continue, (emit (Sleep dl) ?s)\<lparr>retries_performed := retries_performed ?s + 1\<rparr>)"
    using assms(11) by (simp add: sleep_and_retry_def)
  finally have "iteration e verb full_url post_data s =
      (Continue, (emit (Sleep dl) ?s)\<lparr>retries_performed := retries_performed ?s + 1\<rparr>)"
    by (simp only: iteration_response [OF assms(1,2) nb assms(5,6)])
  then show ?thesis by simp
qed

lemma continue_without_budget:
  assumes "fst (rate_limit_gate e s) = None"
    and "responses e (count_sends (trace s)) = Inr r"
    and "status_code r = 429 \<or> status_code r = 420"
    and "wait_on_rate_limit (api (self s))"
    and "update_remaining e r (self s) = Inr m1" and "update_reset e r m1 = Inr m2"
    and "remaining_calls m2 = Some 0"
  shows "iteration e verb full_url post_data s =
     (Continue, (emit (Request verb full_url post_data (auth (api (self s))))
                   (apply_auth (snd (rate_limit_gate e s))))\<lparr>resp := Some r, self := m2\<rparr>)"
proof -
  have nb: "\<not> (200 \<le> status_code r \<and> status_code r < 300)" using assms(3) by auto
  have a: "api m2 = api (self s)" by (rule bookkeeping_api [OF assms(5,6)])
  let ?s = "(emit (Request verb full_url post_data (auth (api (self s))))
                   (apply_auth (snd (rate_limit_gate e s))))\<lparr>resp := Some r, self := m2\<rparr>"
  have "decide e r ?s = (Continue, ?s)"
    using assms(3,4,7) a by (auto simp add: decide_def)
  then show ?thesis
    by (simp only: iteration_response [OF assms(1,2) nb assms(5,6)])
qed

lemma rate_limited_out_bookkeeping:
  assumes "rate_limited_out e r"
  shows "\<exists>m1 m2. update_remaining e r m = Inr m1 \<and> update_reset e r m1 = Inr m2 \<and>
           remaining_calls m2 = Some 0"
proof -
  from assms obtain v where v: "map_of (headers r) ''x-rate-limit-remaining'' = Some v"
      "py_int e v = Some 0"
    by (auto simp: rate_limited_out_def split: option.splits)
  then have m1: "update_remaining e r m = Inr (m\<lparr>remaining_calls := Some 0\<rparr>)"
    by (simp add: update_remaining_def)
  from assms have "\<exists>m2. update_reset e r (m\<lparr>remaining_calls := Some 0\<rparr>) = Inr m2 \<and>
      remaining_calls m2 = Some 0"
    by (auto simp: rate_limited_out_def update_reset_def split: option.splits)
  with m1 show ?thesis by blast
qed

lemma rate_limited_step:
  assumes "responses e (count_sends (trace s)) = Inr r" and "rate_limited_out e r"
    and "wait_on_rate_limit (api (self s))" and "gate_sleeps_accepted e (self s)"
  shows "\<exists>s'. iteration e v u d s = (Continue, s') \<and>
           retries_performed s' = retries_performed s \<and>
           count_sends (trace s') = Suc (count_sends (trace s)) \<and>
           api (self s') = api (self s) \<and> gate_sleeps_accepted e (self s')"
proof -
  from rate_limited_out_bookkeeping [OF assms(2)] obtain m1 m2 where
    b: "update_remaining e r (self s) = Inr m1" "update_reset e r m1 = Inr m2"
      "remaining_calls m2 = Some 0" by blast
  have st: "status_code r = 429 \<or> status_code r = 420"
    using assms(2) by (auto simp: rate_limited_out_def)
  have pass: "fst (rate_limit_gate e s) = None" by (rule accepted_gate_passes [OF assms(4)])
  let ?s = "(emit (Request v u d (auth (api (self s))))
                   (apply_auth (snd (rate_limit_gate e s))))\<lparr>resp := Some r, self := m2\<rparr>"
  have it: "iteration e v u d s = (Continue, ?s)"
    by (rule continue_without_budget [OF pass assms(1) st assms(3) b])
  have "retries_performed ?s = retries_performed s" by simp
  moreover have "count_sends (trace ?s) = Suc (count_sends (trace s))" by simp
  moreover have "api (self ?s) = api (self s)" using bookkeeping_api [OF b(1,2)] by simp
  moreover have "gate_sleeps_accepted e (self ?s)"
    using accepted_bookkeeping [OF assms(4,1) b(1,2)] by simp
  ultimately show ?thesis using it by blast
qed

lemma iteration_success:
  assumes "fst (rate_limit_gate e s) = None"
    and "responses e (count_sends (trace s)) = Inr r"
    and "200 \<le> status_code r" and "status_code r < 300"
  shows "iteration e v u d s =
     (Break, (emit (Request v u d (auth (api (self s))))
                (apply_auth (snd (rate_limit_gate e s))))\<lparr>resp := Some r\<rparr>)"
  unfolding iteration_unfold classify_def using assms by simp

lemma rate_limited_loop:
  assumes "wait_on_rate_limit (api (self s))"
    and "retries_performed s < retry_count (api (self s)) + 1"
    and "\<forall>n<k. \<exists>r. responses e (count_sends (trace s) + n) = Inr r \<and> rate_limited_out e r"
    and "responses e (count_sends (trace s) + k) = Inr r2"
    and "200 \<le> status_code r2" and "status_code r2 < 300"
    and "k < fuel" and "gate_sleeps_accepted e (self s)"
  shows "\<exists>s'. request_loop e v u d fuel s = Some (None, s') \<and>
           count_sends (trace s') = count_sends (trace s) + k + 1 \<and> resp s' = Some r2 \<and>
           api (self s') = api (self s)"
  using assms
proof (induction k arbitrary: s fuel)
  case 0
  then obtain n where fuel: "fuel = Suc n" by (cases fuel) simp_all
  let ?s = "(emit (Request v u d (auth (api (self s))))
                (apply_auth (snd (rate_limit_gate e s))))\<lparr>resp := Some r2\<rparr>"
  have pass: "fst (rate_limit_gate e s) = None" by (rule accepted_gate_passes [OF 0(8)])
  from 0 have it: "iteration e v u d s = (Break, ?s)"
    by (intro iteration_success [OF pass]) simp_all
  have "request_loop e v u d fuel s = Some (None, ?s)"
    unfolding fuel by (simp add: loop_step [OF 0(2)] it)
  moreover have "count_sends (trace ?s) = count_sends (trace s) + 0 + 1" by simp
  moreover have "resp ?s = Some r2" by simp
  moreover have "api (self ?s) = api (self s)" by simp
  ultimately show ?case by blast
next
  case (Suc k)
  then obtain n where fuel: "fuel = Suc n" "k < n" by (cases fuel) simp_all
  from Suc.prems(3) obtain r where r: "responses e (count_sends (trace s)) = Inr r"
      "rate_limited_out e r"
    by force
  from rate_limited_step [OF r Suc.prems(1,8)] obtain s1 where
    s1: "iteration e v u d s = (Continue, s1)" "retries_performed s1 = retries_performed s"
      "count_sends (trace s1) = Suc (count_sends (trace s))" "api (self s1) = api (self s)"
      "gate_sleeps_accepted e (self s1)"
    by blast
  have a: "wait_on_rate_limit (api (self s1))" using s1(4) Suc.prems(1) by simp
  have b: "retries_performed s1 < retry_count (api (self s1)) + 1"
    using s1(2,4) Suc.prems(2) by simp
  have c: "\<forall>n<k. \<exists>r. responses e (count_sends (trace s1) + n) = Inr r \<and> rate_limited_out e r"
  proof (intro allI impI)
    fix i assume "i < k"
    then have "Suc i < Suc k" by simp
    with Suc.prems(3) have "\<exists>r. responses e (count_sends (trace s) + Suc i) = Inr r \<and> rate_limited_out e r"
      by blast
    then show "\<exists>r. responses e (count_sends (trace s1) + i) = Inr r \<and> rate_limited_out e r"
      using s1(3) by simp
  qed
  have d: "responses e (count_sends (trace s1) + k) = Inr r2"
    using Suc.prems(4) s1(3) by simp
  from Suc.IH [OF a b c d Suc.prems(5,6) fuel(2) s1(5)] obtain s' where
    s': "request_loop e v u d n s1 = Some (None, s')"
      "count_sends (trace s') = count_sends (trace s1) + k + 1" "resp s' = Some r2"
      "api (self s') = api (self s1)" by blast
  have "request_loop e v u d fuel s = Some (None, s')"
    unfolding fuel by (simp add: loop_step [OF Suc.prems(2)] s1(1) s'(1))
  moreover have "count_sends (trace s') = count_sends (trace s) + Suc k + 1"
    using s'(2) s1(3) by simp
  ultimately show ?case using s'(3,4) s1(4) by auto
qed

lemma headers_parse_bookkeeping:
  assumes "headers_parse e r"
  shows "\<exists>m1 m2. update_remaining e r m = Inr m1 \<and> update_reset e r m1 = Inr m2"
proof -
  from assms have "\<exists>m1. update_remaining e r m = Inr m1"
    by (cases "remaining_calls m")
       (auto simp: headers_parse_def update_remaining_def split: option.splits)
  then obtain m1 where m1: "update_remaining e r m = Inr m1" by blast
  from assms have "\<exists>m2. update_reset e r m1 = Inr m2"
    by (auto simp: headers_parse_def update_reset_def split: option.splits)
  with m1 show ?thesis by blast
qed

lemma server_error_step:
  assumes "responses e (count_sends (trace s)) = Inr r" and "status_code r = 500"
    and "headers_parse e r" and "500 \<in> set (retry_errors (api (self s)))"
    and "time_sleep e (retry_delay (api (self s))) = None"
    and "gate_sleeps_accepted e (self s)"
  shows "\<exists>s'. iteration e v u d s = (Continue, s') \<and>
           retries_performed s' = retries_performed s + 1 \<and>
           count_sends (trace s') = Suc (count_sends (trace s)) \<and>
           api (self s') = api (self s) \<and> resp s' = Some r \<and>
           gate_sleeps_accepted e (self s')"
proof -
  from headers_parse_bookkeeping [OF assms(3)] obtain m1 m2 where
    b: "update_remaining e r (self s) = Inr m1" "update_reset e r m1 = Inr m2" by blast
  have nb: "\<not> (200 \<le> status_code r \<and> status_code r < 300)" using assms(2) by simp
  have a: "api m2 = api (self s)" by (rule bookkeeping_api [OF b])
  have pass: "fst (rate_limit_gate e s) = None" by (rule accepted_gate_passes [OF assms(6)])
  have acc: "gate_sleeps_accepted e m2" by (rule accepted_bookkeeping [OF assms(6,1) b])
  let ?s = "(emit (Request v u d (auth (api (self s))))
                   (apply_auth (snd (rate_limit_gate e s))))\<lparr>resp := Some r, self := m2\<rparr>"
  have "decide e r ?s = sleep_and_retry e (retry_delay (api (self s))) ?s"
    using assms(2,4) a by (auto simp add: decide_def)
  also have "\<dots> = (Continue, (emit (Sleep (retry_delay (api (self s)))) ?s)
                        \<lparr>retries_performed := retries_performed ?s + 1\<rparr>)"
    using assms(5) by (simp add: sleep_and_retry_def)
  finally have it: "iteration e v u d s =
      (Continue, (emit (Sleep (retry_delay (api (self s)))) ?s)
                        \<lparr>retries_performed := retries_performed ?s + 1\<rparr>)"
    by (simp only: iteration_response [OF pass assms(1) nb b])
  show ?thesis unfolding it using a acc by simp
qed

lemma server_error_loop:
  assumes "retries_performed s + int n = retry_count (api (self s)) + 1"
    and "\<forall>i. \<exists>r. responses e i = Inr r \<and> status_code r = 500 \<and> headers_parse e r"
    and "500 \<in> set (retry_errors (api (self s)))"
    and "time_sleep e (retry_delay (api (self s))) = None"
    and "gate_sleeps_accepted e (self s)"
    and "n \<le> fuel"
  shows "\<exists>s'. request_loop e v u d fuel s = Some (None, s') \<and>
           count_sends (trace s') = count_sends (trace s) + n \<and>
           api (self s') = api (self s) \<and>
           (n = 0 \<longrightarrow> s' = s) \<and>
           (0 < n \<longrightarrow> (\<exists>r. resp s' = Some r \<and>
                              responses e (count_sends (trace s) + n - 1) = Inr r))"
  using assms
proof (induction n arbitrary: s fuel)
  case 0
  then have "\<not> retries_performed s < retry_count (api (self s)) + 1" by simp
  then have "request_loop e v u d fuel s = Some (None, s)" by (rule loop_exit)
  then show ?case by simp
next
  case (Suc n)
  then obtain f where fuel: "fuel = Suc f" "n \<le> f" by (cases fuel) simp_all
  have cond: "retries_performed s < retry_count (api (self s)) + 1"
    using Suc.prems(1) by simp
  from Suc.prems(2) obtain r where r: "responses e (count_sends (trace s)) = Inr r"
      "status_code r = 500" "headers_parse e r" by blast
  from server_error_step [OF r Suc.prems(3,4,5)] obtain s1 where
    s1: "iteration e v u d s = (Continue, s1)" "retries_performed s1 = retries_performed s + 1"
      "count_sends (trace s1) = Suc (count_sends (trace s))" "api (self s1) = api (self s)"
      "resp s1 = Some r" "gate_sleeps_accepted e (self s1)" by blast
  have a: "retries_performed s1 + int n = retry_count (api (self s1)) + 1"
    using Suc.prems(1) s1(2,4) by simp
  have b: "500 \<in> set (retry_errors (api (self s1)))"
    "time_sleep e (retry_delay (api (self s1))) = None"
    using Suc.prems(3,4) s1(4) by simp_all
  from Suc.IH [OF a Suc.prems(2) b s1(6) fuel(2)] obtain s' where
    s': "request_loop e v u d f s1 = Some (None, s')"
      "count_sends (trace s') = count_sends (trace s1) + n" "api (self s') = api (self s1)"
      "n = 0 \<longrightarrow> s' = s1"
      "0 < n \<longrightarrow> (\<exists>r. resp s' = Some r \<and> responses e (count_sends (trace s1) + n - 1) = Inr r)"
    by blast
  have l: "request_loop e v u d fuel s = Some (None, s')"
    unfolding fuel by (simp add: loop_step [OF cond] s1(1) s'(1))
  have c: "count_sends (trace s') = count_sends (trace s) + Suc n" using s'(2) s1(3) by simp
  have "\<exists>r. resp s' = Some r \<and> responses e (count_sends (trace s) + Suc n - 1) = Inr r"
  proof (cases "n = 0")
    case True
    with s'(4) s1(5) r(1) show ?thesis by simp
  next
    case False
    with s'(5) s1(3) show ?thesis by simp
  qed
  with l c s'(3) s1(4) show ?case by simp
qed





section \<open>The properties on sample runs\<close>

lemmas sample_defs = sample_api_def sample_method_def sample_env_def server_error_def
  too_many_requests_def slow_down_def ok_response_def

lemma sample_accepted: "gate_sleeps_accepted sample_env sample_method"
  by (simp add: gate_sleeps_accepted_def sample_defs)



text \<open>
  The theorem of claim C5 on the sample method, the cache holding a list of a \<open>Model\<close> and
  another object.
\<close>

theorem cache_hit_returns_witness:
  "execute (sample_env\<lparr>cache_get := \<lambda>k. Some (PyList [ModelObj None ''a'', Other True ''b''])\<rparr>)
     0 sample_method ''GET'' None False True =
     Some (Inr (PyList [ModelObj (Some 1) ''a'', Other True ''b'']),
           sample_method\<lparr>api := (api sample_method)\<lparr>cached_result := True\<rparr>\<rparr>,
           [CacheGet ''/1.1/statuses/show.json?id=7''])"
proof -
  let ?e = "sample_env\<lparr>cache_get := \<lambda>k. Some (PyList [ModelObj None ''a'', Other True ''b''])\<rparr>"
  have h: "True" "cache (api sample_method)" "''GET'' = ''GET''"
    "cache_get ?e (cache_key (m_api_root sample_method @ path sample_method)
        (params sample_method)) = Some (PyList [ModelObj None ''a'', Other True ''b''])"
    "truthy (PyList [ModelObj None ''a'', Other True ''b''])"
    by (simp_all add: sample_defs)
  have k: "cache_key (m_api_root sample_method @ path sample_method) (params sample_method)
      = ''/1.1/statuses/show.json?id=7''"
    by (simp add: sample_method_def cache_key_def urlencode_def quote_plus_def always_safe_def)
  have i: "api_id (api sample_method) = 1" by (simp add: sample_defs)
  from cache_hit_returns [OF h, of 0 None False] show ?thesis
    by (simp add: k i)
qed

text \<open>
  Claim C5 as stated fails. When the lookup returns the empty list, a value that is
  falsy, line 87 takes it for a miss: the request is sent and the parsed response is
  returned, not marked as cached.
\<close>

theorem cache_hit_returns_counterexample:
  "cache_get (sample_env\<lparr>cache_get := \<lambda>k. Some (PyList []), responses := \<lambda>n. Inr ok_response\<rparr>)
     (cache_key (m_api_root sample_method @ path sample_method) (params sample_method))
     = Some (PyList []) \<and>
   map_option (\<lambda>(res, m', tr). (res, cached_result (api m'), count_sends tr))
     (execute (sample_env\<lparr>cache_get := \<lambda>k. Some (PyList []), responses := \<lambda>n. Inr ok_response\<rparr>)
        1 sample_method ''GET'' None False True)
   = Some (Inr (Other True ''{}''), False, 1)"
  by code_simp

text \<open>
  Claim C10 as stated fails. The first request is answered by a 500, the second one
  raises: \<open>execute\<close> raises \<open>TweepError('Failed to send request: \<dots>')\<close> after two
  requests, and \<open>api.last_response\<close> is still \<open>None\<close>, not the response received.
\<close>

theorem api_frame_counterexample:
  "responses (sample_env\<lparr>responses := \<lambda>n. if n = 0 then Inr server_error else Inl ''timed out''\<rparr>) 0
     = Inr server_error \<and>
   last_response (api sample_method) = None \<and>
   map_option (\<lambda>(res, m', tr). (res, last_response (api m'), count_sends tr))
     (execute (sample_env\<lparr>responses := \<lambda>n. if n = 0 then Inr server_error else Inl ''timed out''\<rparr>)
        2 sample_method ''POST'' None False True)
   = Some (Inl (TweepError ''Failed to send request: timed out'' None None), None, 2)"
  by code_simp



text \<open>
  The theorem of claim C6 on a 429 response with 3 calls remaining and
  \<open>retry-after: 5\<close>, the configured delay being 1: the sleep is 5 seconds.
\<close>

theorem retry_after_delay_witness:
  "\<exists>s'. iteration (sample_env\<lparr>responses := \<lambda>n. Inr slow_down\<rparr>) ''GET''
          ''https://api.twitter.com/1.1/statuses/show.json'' None (loop_start sample_method [])
        = (Continue, s') \<and>
     trace s' = [ApplyAuth,
       Request ''GET'' ''https://api.twitter.com/1.1/statuses/show.json'' None (Some ''token''),
       Sleep (Num 5)] \<and>
     retries_performed s' = 1"
proof -
  let ?e = "sample_env\<lparr>responses := \<lambda>n. Inr slow_down\<rparr>"
  let ?s = "loop_start sample_method []"
  let ?m = "sample_method\<lparr>remaining_calls := Some 3\<rparr>"
  have h: "fst (rate_limit_gate ?e ?s) = None"
    "responses ?e (count_sends (trace ?s)) = Inr slow_down"
    "status_code slow_down = 429 \<or> status_code slow_down = 420"
    "wait_on_rate_limit (api (self ?s))"
    "update_remaining ?e slow_down (self ?s) = Inr ?m"
    "update_reset ?e slow_down ?m = Inr ?m"
    "remaining_calls ?m = Some 3" "(0::int) < 3"
    "map_of (headers slow_down) ''retry-after'' = Some ''5''"
    "py_float ?e ''5'' = Some (Num 5)" "time_sleep ?e (Num 5) = None"
    by (simp_all add: sample_defs update_remaining_def update_reset_def rate_limit_gate_def)
  have v: "trace (apply_auth (snd (rate_limit_gate ?e ?s))) = [ApplyAuth]"
    "auth (api (self ?s)) = Some ''token''" "retries_performed ?s = 0"
    by (simp_all add: sample_defs apply_auth_def rate_limit_gate_def emit_def)
  from retry_after_delay [OF h, of "''GET''" "''https://api.twitter.com/1.1/statuses/show.json''"
      None]
  show ?thesis unfolding v by simp
qed

text \<open>
  Claim C6 as stated fails. One call is known to remain when a 429 with
  \<open>retry-after: 5\<close> and no \<open>x-rate-limit-remaining\<close> header arrives: lines 137--138
  make the count 0 and line 148 goes back to the head of the loop. The loop body ends
  with the request as its last call: no sleep, and no retry counted.
\<close>

theorem retry_after_delay_counterexample:
  "remaining_calls (sample_method\<lparr>remaining_calls := Some 1\<rparr>) = Some 1 \<and>
   wait_on_rate_limit (api sample_method) \<and>
   (case iteration
           (sample_env\<lparr>responses :=
              \<lambda>n. Inr \<lparr>status_code = 429, headers = [(''retry-after'', ''5'')],
                       text_body = ''limit''\<rparr>\<rparr>)
           ''GET'' ''https://api.twitter.com/1.1/statuses/show.json'' None
           (loop_start (sample_method\<lparr>remaining_calls := Some 1\<rparr>) []) of
      (f, s') \<Rightarrow> (f, trace s', retries_performed s', remaining_calls (self s')))
   = (Continue,
      [ApplyAuth,
       Request ''GET'' ''https://api.twitter.com/1.1/statuses/show.json'' None (Some ''token'')],
      0, Some 0)"
  by code_simp

text \<open>
  The theorem of claim C7 on the sample method, every request answered by the sample 500
  response, whose message does not match the rate-limit signature.
\<close>

theorem error_surfacing_witness:
  "\<exists>m' tr. execute sample_env 3 sample_method ''POST'' None False True =
     Some (Inl (TweepError ''oops'' (Some server_error) None), m', tr)"
proof -
  let ?url = "m_api_root sample_method @ path sample_method"
  have miss: "cache_phase sample_env (entry sample_method) ?url ''POST'' True = (None, [])"
    by (simp add: cache_phase_def)
  let ?s0 = "loop_start (entry sample_method) []"
  have a: "retries_performed ?s0 + int 3 = retry_count (api (self ?s0)) + 1"
    by (simp add: sample_defs)
  have b: "\<forall>i. \<exists>r. responses sample_env i = Inr r \<and> status_code r = 500 \<and>
      headers_parse sample_env r"
    by (simp add: sample_defs headers_parse_def)
  have c: "500 \<in> set (retry_errors (api (self ?s0)))"
    "time_sleep sample_env (retry_delay (api (self ?s0))) = None"
    by (simp_all add: sample_defs)
  have g: "gate_sleeps_accepted sample_env (self ?s0)"
    using sample_accepted by (simp add: loop_start_def)
  have fl: "(3::nat) \<le> 3" by simp
  from server_error_loop [OF a b c g fl, where v = "''POST''"
      and u = "''https://'' @ m_host sample_method @ ?url" and d = None]
  obtain s r where s: "request_loop sample_env ''POST''
        (''https://'' @ m_host sample_method @ ?url) None 3 ?s0 = Some (None, s)"
      "resp s = Some r" "responses sample_env (count_sends (trace ?s0) + 3 - 1) = Inr r"
    by fastforce
  from s(3) have r: "r = server_error" by (simp add: sample_env_def)
  have st: "status_code r \<noteq> 0" "\<not> (200 \<le> status_code r \<and> status_code r < 300)"
    unfolding r by (simp_all add: server_error_def)
  have e: "api_error sample_env server_error = TweepError ''oops'' (Some server_error) None"
    by (simp add: api_error_def error_message_def sample_env_def server_error_def)
  from error_surfacing [OF miss s(1,2) st, of False] show ?thesis
    unfolding r e by blast
qed

text \<open>
  The theorem of claim C8 on the sample method, the request answered by a 200: the
  lookup and the store use the key \<open>/1.1/statuses/show.json?id=7\<close>.
\<close>

theorem cache_population_witness:
  "\<exists>m' tr. execute (sample_env\<lparr>responses := \<lambda>n. Inr ok_response\<rparr>) 1 sample_method
       ''GET'' None False True = Some (Inr (Other True ''{}''), m', tr) \<and>
     filter is_cache_event tr =
       [CacheGet ''/1.1/statuses/show.json?id=7'',
        CacheStore ''/1.1/statuses/show.json?id=7'' (Other True ''{}'')]"
proof -
  let ?e = "sample_env\<lparr>responses := \<lambda>n. Inr ok_response\<rparr>"
  have "map_option (\<lambda>(res, m', tr). (res, cached_result (api m')))
      (execute ?e 1 sample_method ''GET'' None False True) = Some (Inr (Other True ''{}''), False)"
    by code_simp
  then obtain m' tr where ex: "execute ?e 1 sample_method ''GET'' None False True
      = Some (Inr (Other True ''{}''), m', tr)" and fresh: "\<not> cached_result (api m')"
    by (cases "execute ?e 1 sample_method ''GET'' None False True") auto
  have h: "True" "cache (api sample_method)" "''GET'' = ''GET''"
    by (simp_all add: sample_defs)
  have k: "cache_key (m_api_root sample_method @ path sample_method) (params sample_method)
      = ''/1.1/statuses/show.json?id=7''"
    by (simp add: sample_method_def cache_key_def urlencode_def quote_plus_def always_safe_def)
  from cache_population [OF h ex fresh] have "filter is_cache_event tr =
       [CacheGet ''/1.1/statuses/show.json?id=7'',
        CacheStore ''/1.1/statuses/show.json?id=7'' (Other True ''{}'')]"
    unfolding k by simp
  with ex show ?thesis by blast
qed


text \<open>
  The theorem of claim C10 on the sample method, the request answered by a 200.
\<close>

theorem api_frame_witness:
  "\<exists>res m' tr. execute (sample_env\<lparr>responses := \<lambda>n. Inr ok_response\<rparr>) 1 sample_method
       ''GET'' None False True = Some (res, m', tr) \<and>
     api m' = (api sample_method)\<lparr>cached_result := False, last_response := Some ok_response\<rparr>"
proof -
  let ?e = "sample_env\<lparr>responses := \<lambda>n. Inr ok_response\<rparr>"
  let ?url = "m_api_root sample_method @ path sample_method"
  let ?tr0 = "[CacheGet (cache_key ?url (params sample_method))]"
  let ?s0 = "loop_start (entry sample_method) ?tr0"
  have miss: "cache_phase ?e (entry sample_method) ?url ''GET'' True = (None, ?tr0)"
    by (simp add: cache_phase_def sample_defs)
  have a: "wait_on_rate_limit (api (self ?s0))"
    "retries_performed ?s0 < retry_count (api (self ?s0)) + 1"
    "\<forall>n<0. \<exists>r. responses ?e (count_sends (trace ?s0) + n) = Inr r \<and> rate_limited_out ?e r"
    "responses ?e (count_sends (trace ?s0) + 0) = Inr ok_response"
    "200 \<le> status_code ok_response" "status_code ok_response < 300" "(0::nat) < 1"
    "gate_sleeps_accepted ?e (self ?s0)"
    by (simp_all add: sample_defs gate_sleeps_accepted_def)
  from rate_limited_loop [OF a, where v = "''GET''"
      and u = "''https://'' @ m_host sample_method @ ?url" and d = None]
  obtain s where s: "request_loop ?e ''GET'' (''https://'' @ m_host sample_method @ ?url) None 1 ?s0
      = Some (None, s)" "resp s = Some ok_response" by blast
  obtain res m' tr where fin: "finish ?e ?url ''GET'' False True s = (res, m', tr)"
    by (cases "finish ?e ?url ''GET'' False True s")
  have l: "request_loop ?e ''GET'' (''https://'' @ m_host (entry sample_method) @ ?url) None 1 ?s0
      = Some (None, s)" using s(1) by simp
  have ex: "execute ?e 1 sample_method ''GET'' None False True = Some (res, m', tr)"
    by (simp only: execute_miss [OF miss] request_and_finish_exit [OF l] fin)
  note fr = api_frame [OF ex]
  have f1: "api m' = (api sample_method)\<lparr>cached_result := cached_result (api m'),
                          last_response := last_response (api m')\<rparr>"
    using fr by (rule conjunct1)
  from fr miss s
  have f: "cached_result (api m') = False" "last_response (api m') = Some ok_response"
    by simp_all
  note f1
  also have "(api sample_method)\<lparr>cached_result := cached_result (api m'),
                          last_response := last_response (api m')\<rparr> =
      (api sample_method)\<lparr>cached_result := False, last_response := Some ok_response\<rparr>"
    by (simp only: f)
  finally have "api m' = (api sample_method)\<lparr>cached_result := False,
      last_response := Some ok_response\<rparr>" .
  with ex show ?thesis by blast
qed

end
